theory Spec2Isabelle
  imports Complex_Main "HOL-Library.Word" "HOL-Library.AList"
begin

section \<open>Errors, faults and the connection pool\<close>

text \<open>
  Go's \<open>error\<close> values. \<open>DriverError\<close> is an error handed back by the pgx driver,
  \<open>NerrText s\<close> is \<open>nerr.New(s)\<close> for a message, \<open>NerrWrap e\<close> is \<open>nerr.New(e)\<close> for an
  error \<open>e\<close>. A nil error is \<open>None\<close>.
\<close>

datatype error = DriverError string | NerrText string | NerrWrap error

text \<open>
  \<open>nerr.New(err)\<close> for an \<open>err\<close> that may be nil. The nerr package is a dependency, not
  part of the sources; a nil error stays nil (\<open>Exec\<close> and \<open>Commit\<close> return its result
  on their success path), any other error is wrapped.
\<close>

definition nerr_New :: "error option \<Rightarrow> error option" where
  "nerr_New err = map_option NerrWrap err"

text \<open>
  A panic ends the calling flow; it is the \<open>Inl\<close> of a result. \<open>NilDereference\<close> is the
  runtime panic of a method call on a nil interface value, the others are the
  \<open>panic(...)\<close> statements of query.go with the field name they print.
\<close>

datatype fault =
    NilDereference
  | CantFindField string
  | CantConvert
  | CantConvertBool string
  | CantConvertFloat string
  | CantConvertTime string
  | CantConvertDuration string
  | CantConvertBytes string

text \<open>
  What the code asks of \<open>*pgxpool.Pool\<close> outside of running statements: \<open>Acquire\<close>
  (its error, if any) and, through the acquired connection, \<open>ConnInfo().DataTypeForOID\<close>.
  The pool is taken to be non-nil.
\<close>

record DataType =
  dt_Name :: string
  dt_OID :: "32 word"

record Pool =
  p_Acquire :: "error option"
  p_DataTypeForOID :: "32 word \<rightharpoonup> DataType"

section \<open>Tx: nested transactions\<close>

text \<open>
  \<open>pgx.Tx\<close> is an interface value: \<open>None\<close> is nil, \<open>Some h\<close> the handle of an open
  physical transaction. The context is not modelled. \<open>counter\<close> is a Go \<open>int\<close>, on a
  64-bit build a signed 64-bit integer: \<open>counter++\<close> and \<open>counter--\<close> wrap around, and
  \<open>counter > 0\<close> is the signed comparison.
\<close>

type_synonym txh = nat

record Tx =
  tx_pool :: Pool
  tx_counter :: "64 word"
  tx_tx :: "txh option"

text \<open>The operations that reach the database, in the order they are issued.\<close>

datatype phys = PhysBegin string string | PhysCommit txh | PhysRollback txh

definition NewTx :: "Pool \<Rightarrow> Tx" where
  "NewTx pool = \<lparr>tx_pool = pool, tx_counter = 0, tx_tx = None\<rparr>"

definition Level :: "Tx \<Rightarrow> 64 word" where
  "Level t = tx_counter t"

text \<open>
  \<open>BeginTx\<close>: \<open>resp\<close> is what \<open>pool.BeginTx\<close> answers if it is called (an error, or the
  new handle). The result is the new state, the returned error and the physical
  operations issued.
\<close>

definition BeginTx :: "error + txh \<Rightarrow> string \<Rightarrow> string \<Rightarrow> Tx \<Rightarrow> Tx \<times> error option \<times> phys list" where
  "BeginTx resp level mode t =
     (if 0 <s tx_counter t then (t\<lparr>tx_counter := tx_counter t + 1\<rparr>, None, [])
      else case resp of
             Inl err \<Rightarrow> (t, nerr_New (Some err), [PhysBegin level mode])
           | Inr h \<Rightarrow>
               (t\<lparr>tx_tx := Some h, tx_counter := tx_counter t + 1\<rparr>, None,
                [PhysBegin level mode]))"

definition Begin :: "error + txh \<Rightarrow> Tx \<Rightarrow> Tx \<times> error option \<times> phys list" where
  "Begin resp t = BeginTx resp ''read committed'' ''read write'' t"

text \<open>
  \<open>Commit\<close> and \<open>Rollback\<close>: \<open>resp\<close> is what the handle's \<open>Commit\<close> or \<open>Rollback\<close>
  answers if it is called. Calling it on a nil handle panics.
\<close>

definition Commit :: "error option \<Rightarrow> Tx \<Rightarrow> fault + Tx \<times> error option \<times> phys list" where
  "Commit resp t =
     (if tx_counter t = 0 then Inr (t, Some (NerrText ''no transaction to commit''), [])
      else
        let t1 = t\<lparr>tx_counter := tx_counter t - 1\<rparr> in
        if 0 <s tx_counter t1 then Inr (t1, None, [])
        else case tx_tx t1 of
               None \<Rightarrow> Inl NilDereference
             | Some h \<Rightarrow> Inr (t1\<lparr>tx_tx := None\<rparr>, nerr_New resp, [PhysCommit h]))"

definition Rollback :: "error option \<Rightarrow> Tx \<Rightarrow> fault + Tx \<times> error option \<times> phys list" where
  "Rollback resp t =
     (if tx_counter t = 0 then Inr (t, Some (NerrText ''no transaction to rollback''), [])
      else
        let t1 = t\<lparr>tx_counter := 0\<rparr> in
        case tx_tx t1 of
          None \<Rightarrow> Inl NilDereference
        | Some h \<Rightarrow>
            Inr (t1\<lparr>tx_tx := None\<rparr>,
                 (case resp of Some err \<Rightarrow> nerr_New (Some err) | None \<Rightarrow> None),
                 [PhysRollback h]))"

text \<open>
  A caller: a sequence of calls on one \<open>Tx\<close>, each with the driver's answer, collects the
  returned errors and the physical operations; a panic ends the run.
\<close>

datatype call = CallBegin "error + txh" | CallCommit "error option" | CallRollback "error option"

fun step :: "call \<Rightarrow> Tx \<Rightarrow> fault + Tx \<times> error option \<times> phys list" where
  "step (CallBegin resp) t = Inr (Begin resp t)"
| "step (CallCommit resp) t = Commit resp t"
| "step (CallRollback resp) t = Rollback resp t"

fun run :: "call list \<Rightarrow> Tx \<Rightarrow> fault + Tx \<times> error option list \<times> phys list" where
  "run [] t = Inr (t, [], [])"
| "run (c # cs) t =
     (case step c t of
        Inl f \<Rightarrow> Inl f
      | Inr (t1, e, ps) \<Rightarrow>
          (case run cs t1 of
             Inl f \<Rightarrow> Inl f
           | Inr (t2, es, qs) \<Rightarrow> Inr (t2, e # es, ps @ qs)))"

text \<open>\<open>begins hs\<close>: one call of \<open>Begin\<close> per handle of \<open>hs\<close>, the driver ready to answer
  each with its handle.\<close>

definition begins :: "txh list \<Rightarrow> call list" where
  "begins hs = map (\<lambda>h. CallBegin (Inr h)) hs"

text \<open>The largest value of the counter, \<open>math.MaxInt64\<close>.\<close>

definition MaxInt64 :: "64 word" where
  "MaxInt64 = 9223372036854775807"

text \<open>\<open>N\<close> calls of \<open>Begin\<close>, then \<open>N\<close> calls of \<open>Commit\<close>, the driver succeeding.\<close>

definition nested :: "nat \<Rightarrow> txh \<Rightarrow> call list" where
  "nested N h = replicate N (CallBegin (Inr h)) @ replicate N (CallCommit None)"

text \<open>The data model's invariant of a \<open>Tx\<close>: the counter is not negative, and the handle
  is there exactly when the counter is positive (both read as signed).\<close>

definition tx_inv :: "Tx \<Rightarrow> bool" where
  "tx_inv t = (0 \<le>s tx_counter t \<and> ((tx_tx t \<noteq> None) = (0 <s tx_counter t)))"

section \<open>Driver values and cursors\<close>

text \<open>
  A \<open>float32\<close> or \<open>float64\<close> by its value: not a number, an infinity (\<open>True\<close> for
  \<open>+Inf\<close>), or a finite number. The two zeros are not told apart.
\<close>

datatype gofloat = FNaN | FInf bool | FNum rat

text \<open>Go's comparison \<open>x < y\<close> on floating-point values: false as soon as one is NaN.\<close>

fun float_less :: "gofloat \<Rightarrow> gofloat \<Rightarrow> bool" where
  "float_less FNaN _ = False"
| "float_less _ FNaN = False"
| "float_less (FNum a) (FNum b) = (a < b)"
| "float_less (FNum a) (FInf s) = s"
| "float_less (FInf s) (FNum b) = (\<not> s)"
| "float_less (FInf s) (FInf s') = (\<not> s \<and> s')"

text \<open>A \<open>time.Time\<close> as the nanoseconds since the zero instant \<open>time.Time{}\<close>; the
  location is not modelled.\<close>

datatype gotime = Instant int

definition time_Add :: "gotime \<Rightarrow> 64 word \<Rightarrow> gotime" where
  "time_Add t d = (case t of Instant n \<Rightarrow> Instant (n + sint d))"

text \<open>
  The dynamic values an \<open>interface{}\<close> of a result row can hold, one constructor per
  type the code switches on. \<open>int\<close> and \<open>uint\<close> are 64 bits wide. \<open>VText\<close> and
  \<open>VVarchar\<close> carry the \<open>String\<close> field of \<open>pgtype.Text\<close> and \<open>pgtype.Varchar\<close>, the
  array constructors the \<open>String\<close>, \<open>Time\<close> or \<open>Int\<close> fields of the \<open>Elements\<close>.
  \<open>VOther\<close> is a value of any other type, by a description.
\<close>

datatype val =
    VNil
  | VBool bool
  | VInt "64 word" | VInt8 "8 word" | VInt16 "16 word" | VInt32 "32 word" | VInt64 "64 word"
  | VUint "64 word" | VUint8 "8 word" | VUint16 "16 word" | VUint32 "32 word" | VUint64 "64 word"
  | VFloat32 gofloat | VFloat64 gofloat
  | VString string
  | VBytes string
  | VTime gotime
  | VText string | VVarchar string
  | VStrings "string list"
  | VTextArray "string list" | VVarcharArray "string list"
  | VTimes "gotime list"
  | VTimestampArray "gotime list" | VTimestamptzArray "gotime list"
  | VInt2Array "16 word list" | VInt4Array "32 word list" | VInt8Array "64 word list"
  | VOther string

text \<open>\<open>pgproto3.FieldDescription\<close>: the two fields the code reads.\<close>

record FieldDescription =
  fd_Name :: string
  fd_DataTypeOID :: "32 word"

text \<open>
  \<open>pgx.Rows\<close>, a cursor of the driver: the column directory, what \<open>Values()\<close> yields at
  the current position, the rows not fetched yet (each as what \<open>Values()\<close> will yield
  on it), whether the cursor is closed, what \<open>Err()\<close> reports and the command tag.
  The driver is not part of the sources; its operations follow the documented
  behaviour of pgx: \<open>Next\<close> moves to the next row or closes the cursor at the end,
  \<open>Values\<close> on a closed cursor is an error, \<open>Close\<close> is idempotent.
\<close>

record Rows =
  r_FieldDescriptions :: "FieldDescription list"
  r_current :: "val list \<times> error option"
  r_pending :: "(val list \<times> error option) list"
  r_closed :: bool
  r_err :: "error option"
  r_tag :: string

definition rows_Next :: "Rows \<Rightarrow> Rows \<times> bool" where
  "rows_Next r =
     (if r_closed r then (r, False)
      else case r_pending r of
             [] \<Rightarrow> (r\<lparr>r_closed := True\<rparr>, False)
           | x # xs \<Rightarrow> (r\<lparr>r_current := x, r_pending := xs\<rparr>, True))"

definition rows_Values :: "Rows \<Rightarrow> val list \<times> error option" where
  "rows_Values r =
     (if r_closed r then ([], Some (DriverError ''rows is closed'')) else r_current r)"

definition rows_Close :: "Rows \<Rightarrow> Rows" where
  "rows_Close r = r\<lparr>r_closed := True\<rparr>"

text \<open>
  \<open>pgconn.CommandTag.RowsAffected\<close>: the decimal number that ends the tag
  (\<open>INSERT 0 1\<close> gives 1), 0 when the tag does not end in a digit.
\<close>

definition is_digit :: "char \<Rightarrow> bool" where
  "is_digit c = (48 \<le> (of_char c :: nat) \<and> (of_char c :: nat) \<le> 57)"

definition tag_RowsAffected :: "string \<Rightarrow> 64 word" where
  "tag_RowsAffected ct =
     foldl (\<lambda>n b. n * 10 + of_nat (of_char b - 48)) 0 (rev (takeWhile is_digit (rev ct)))"

text \<open>
  What the driver answers to a statement: \<open>Exec\<close> gives a command tag and an error,
  \<open>Query\<close> an error or a cursor; on the pool, or on the handle of a transaction.
\<close>

record Driver =
  pool_Exec :: "string \<Rightarrow> string \<times> error option"
  tx_Exec :: "txh \<Rightarrow> string \<Rightarrow> string \<times> error option"
  pool_Query :: "string \<Rightarrow> error + Rows"
  tx_Query :: "txh \<Rightarrow> string \<Rightarrow> error + Rows"

text \<open>
  The functions of Go's library that the decoder calls, as parameters:
  \<open>strconv.ParseInt(s, 10, 64)\<close> and \<open>strconv.ParseFloat(s, 64)\<close> (\<open>None\<close> when they
  return an error); the conversion \<open>T(d)\<close> of a floating-point value to the integer
  type \<open>T\<close> (implementation-dependent out of range); \<open>float64(d)\<close> of an integer;
  \<open>float32(x)\<close> of a finite number other than zero; \<open>time.Parse(layout, s)\<close>;
  \<open>time.ParseDuration(fmt.Sprintf("%d\<mu>s", d))\<close> of an integer; \<open>hex.DecodeString\<close>;
  \<open>fmt.Sprintf("%v", d)\<close>.
\<close>

datatype ikind = KInt | KInt64 | KUInt64

record Runtime =
  strconv_ParseInt :: "string \<Rightarrow> 64 word option"
  strconv_ParseFloat :: "string \<Rightarrow> gofloat option"
  float_to_int :: "ikind \<Rightarrow> gofloat \<Rightarrow> 64 word"
  int_to_float64 :: "int \<Rightarrow> gofloat"
  round_float32 :: "rat \<Rightarrow> gofloat"
  time_Parse :: "string \<Rightarrow> string \<Rightarrow> gotime option"
  micros_ParseDuration :: "int \<Rightarrow> 64 word option"
  hex_DecodeString :: "string \<Rightarrow> string option"
  fmt_Sprintf_v :: "val \<Rightarrow> string"

text \<open>\<open>strings.ToLower\<close> on the bytes of an ASCII string; other bytes stay as they are.\<close>

definition lower_char :: "char \<Rightarrow> char" where
  "lower_char c =
     (if 65 \<le> (of_char c :: nat) \<and> (of_char c :: nat) \<le> 90 then char_of ((of_char c :: nat) + 32)
      else c)"

definition ToLower :: "string \<Rightarrow> string" where
  "ToLower s = map lower_char s"

section \<open>Query: running a statement\<close>

text \<open>
  \<open>tx\<close> is a pointer to a \<open>Tx\<close>; the record carries the \<open>Tx\<close> as it is when the method
  is called (no method of \<open>Query\<close> writes to it). \<open>fields\<close> is a \<open>map[string]int\<close>: an
  association list with one entry per key, so that its length is the map's \<open>len\<close>; the
  positions it holds are loop indices, hence natural numbers. A nil slice is \<open>[]\<close>.
\<close>

record Query =
  q_tx :: "Tx option"
  q_pool :: Pool
  q_rows :: "Rows option"
  q_tag :: string
  q_fields :: "(string \<times> nat) list"
  q_lastValues :: "val list"
  q_lastDescriptions :: "FieldDescription list"

definition NewQuery :: "Pool \<Rightarrow> Query" where
  "NewQuery pool =
     \<lparr>q_tx = None, q_pool = pool, q_rows = None, q_tag = [], q_fields = [],
      q_lastValues = [], q_lastDescriptions = []\<rparr>"

definition NewQueryTx :: "Tx \<Rightarrow> Query" where
  "NewQueryTx tx =
     \<lparr>q_tx = Some tx, q_pool = tx_pool tx, q_rows = None, q_tag = [], q_fields = [],
      q_lastValues = [], q_lastDescriptions = []\<rparr>"

definition Close :: "Query \<Rightarrow> Query \<times> error option" where
  "Close q =
     (case q_rows q of
        Some rows \<Rightarrow>
          (q\<lparr>q_lastValues := fst (rows_Values rows),
             q_lastDescriptions := r_FieldDescriptions rows,
             q_rows := None\<rparr>,
           r_err (rows_Close rows))
      | None \<Rightarrow> (q, None))"

definition RowsAffected :: "Query \<Rightarrow> Query \<times> 64 word" where
  "RowsAffected q =
     (case q_rows q of
        Some rows \<Rightarrow>
          (q\<lparr>q_rows := Some (rows_Close rows)\<rparr>, tag_RowsAffected (r_tag (rows_Close rows)))
      | None \<Rightarrow> (q, 0))"

definition IsSelect :: "Query \<Rightarrow> bool" where
  "IsSelect q = (q_rows q \<noteq> None)"

definition IsCommand :: "Query \<Rightarrow> bool" where
  "IsCommand q = (length (q_tag q) > 0)"

definition Exec :: "Driver \<Rightarrow> Query \<Rightarrow> string \<Rightarrow> fault + Query \<times> error option" where
  "Exec drv q sql =
     (let q1 = q\<lparr>q_rows := None, q_lastValues := [], q_lastDescriptions := [], q_fields := []\<rparr> in
      case q_tx q1 of
        Some t \<Rightarrow>
          (case tx_tx t of
             None \<Rightarrow> Inl NilDereference
           | Some h \<Rightarrow>
               (case tx_Exec drv h sql of (tag, err) \<Rightarrow> Inr (q1\<lparr>q_tag := tag\<rparr>, nerr_New err)))
      | None \<Rightarrow>
          (case pool_Exec drv sql of (tag, err) \<Rightarrow> Inr (q1\<lparr>q_tag := tag\<rparr>, nerr_New err)))"

definition Fields :: "Query \<Rightarrow> FieldDescription list" where
  "Fields q =
     (case q_rows q of
        None \<Rightarrow> (if length (q_lastDescriptions q) = 0 then [] else q_lastDescriptions q)
      | Some rows \<Rightarrow> r_FieldDescriptions rows)"

text \<open>The loop of \<open>Select\<close> over \<open>q.Fields()\<close>: \<open>q.fields[strings.ToLower(name)] = i\<close>.\<close>

fun index_fields :: "(string \<times> nat) list \<Rightarrow> nat \<Rightarrow> FieldDescription list \<Rightarrow> (string \<times> nat) list" where
  "index_fields m i [] = m"
| "index_fields m i (d # ds) = index_fields (AList.update (ToLower (fd_Name d)) i m) (Suc i) ds"

definition Select :: "Driver \<Rightarrow> Query \<Rightarrow> string \<Rightarrow> fault + Query \<times> error option" where
  "Select drv q sql =
     (let q1 = q\<lparr>q_tag := [], q_fields := [], q_lastValues := [], q_lastDescriptions := []\<rparr>;
          finish = (\<lambda>resp.
            case resp of
              Inl err \<Rightarrow> (q1\<lparr>q_rows := None\<rparr>, nerr_New (Some err))
            | Inr rows \<Rightarrow>
                (let q2 = q1\<lparr>q_rows := Some rows\<rparr>
                 in (q2\<lparr>q_fields := index_fields (q_fields q2) 0 (Fields q2)\<rparr>, None)))
      in case q_tx q1 of
           Some t \<Rightarrow>
             (case tx_tx t of
                None \<Rightarrow> Inl NilDereference
              | Some h \<Rightarrow> Inr (finish (tx_Query drv h sql)))
         | None \<Rightarrow> Inr (finish (pool_Query drv sql)))"

definition Next :: "Query \<Rightarrow> Query \<times> bool" where
  "Next q =
     (case q_rows q of
        None \<Rightarrow> (q, False)
      | Some rows \<Rightarrow> (case rows_Next rows of (rows', ok) \<Rightarrow> (q\<lparr>q_rows := Some rows'\<rparr>, ok)))"

definition SelectRow :: "Driver \<Rightarrow> Query \<Rightarrow> string \<Rightarrow> fault + Query \<times> bool \<times> error option" where
  "SelectRow drv q sql =
     (case Select drv q sql of
        Inl f \<Rightarrow> Inl f
      | Inr (q1, Some err) \<Rightarrow> Inr (q1, False, Some err)
      | Inr (q1, None) \<Rightarrow>
          (case Next q1 of (q2, ok) \<Rightarrow>
             (case Close q2 of (q3, err) \<Rightarrow> Inr (q3, ok, err))))"

section \<open>Query: fields and values\<close>

definition FieldName :: "Query \<Rightarrow> int \<Rightarrow> string" where
  "FieldName q index =
     (if q_rows q = None \<or> index < 0 \<or> index \<ge> int (length (Fields q)) then []
      else fd_Name (Fields q ! nat index))"

definition FieldTypeIndex :: "Query \<Rightarrow> int \<Rightarrow> 32 word" where
  "FieldTypeIndex q index =
     (if q_rows q = None \<or> index < 0 \<or> index \<ge> int (length (Fields q)) then 0
      else case p_Acquire (q_pool q) of
             Some err \<Rightarrow> 0
           | None \<Rightarrow>
               (case p_DataTypeForOID (q_pool q) (fd_DataTypeOID (Fields q ! nat index)) of
                  None \<Rightarrow> 0
                | Some dt \<Rightarrow> dt_OID dt))"

definition FieldTypeNameIndex :: "Query \<Rightarrow> int \<Rightarrow> string" where
  "FieldTypeNameIndex q index =
     (if q_rows q = None \<or> index < 0 \<or> index \<ge> int (length (Fields q)) then []
      else case p_Acquire (q_pool q) of
             Some err \<Rightarrow> []
           | None \<Rightarrow>
               (case p_DataTypeForOID (q_pool q) (fd_DataTypeOID (Fields q ! nat index)) of
                  None \<Rightarrow> []
                | Some dt \<Rightarrow> dt_Name dt))"

definition FieldType :: "Query \<Rightarrow> string \<Rightarrow> 32 word" where
  "FieldType q name =
     (case map_of (q_fields q) name of
        Some index \<Rightarrow> FieldTypeIndex q (int index)
      | None \<Rightarrow> 0)"

definition FieldTypeName :: "Query \<Rightarrow> string \<Rightarrow> string" where
  "FieldTypeName q name =
     (case map_of (q_fields q) name of
        Some index \<Rightarrow> FieldTypeNameIndex q (int index)
      | None \<Rightarrow> [])"

definition Contains :: "Query \<Rightarrow> string \<Rightarrow> bool" where
  "Contains q field = (map_of (q_fields q) (ToLower field) \<noteq> None)"

definition Values :: "Query \<Rightarrow> val list \<times> error option" where
  "Values q =
     (case q_rows q of
        None \<Rightarrow> (if length (q_lastDescriptions q) = 0 then ([], None) else (q_lastValues q, None))
      | Some rows \<Rightarrow> rows_Values rows)"

definition Value :: "Query \<Rightarrow> string \<Rightarrow> val" where
  "Value q field =
     (case map_of (q_fields q) (ToLower field) of
        None \<Rightarrow> VNil
      | Some pos \<Rightarrow>
          (case Values q of (values, err) \<Rightarrow>
             if err \<noteq> None \<or> length values \<le> pos then VNil else values ! pos))"

definition IsNull :: "Query \<Rightarrow> string \<Rightarrow> fault + bool" where
  "IsNull q field =
     (if \<not> Contains q field then Inl (CantFindField field)
      else Inr (Value q field = VNil))"

definition ValueIndex :: "Query \<Rightarrow> int \<Rightarrow> val" where
  "ValueIndex q fieldIndex =
     (if q_rows q = None \<or> fieldIndex < 0 \<or> fieldIndex \<ge> int (length (q_fields q)) then VNil
      else case Values q of (vals, err) \<Rightarrow>
             if err \<noteq> None \<or> int (length vals) \<le> fieldIndex then VNil
             else vals ! nat fieldIndex)"

section \<open>Query: the typed accessors\<close>

text \<open>
  A typed accessor returns its value (\<open>Inr\<close>) or panics (\<open>Inl\<close>). Integer results of
  type \<open>int\<close>, \<open>int64\<close> and \<open>uint64\<close> are 64-bit words; converting an integer to one of
  them sign-extends a signed source and zero-extends an unsigned one.
\<close>

definition String :: "Runtime \<Rightarrow> Query \<Rightarrow> string \<Rightarrow> fault + string" where
  "String rt q field =
     (if \<not> Contains q field then Inl (CantFindField field)
      else case Value q field of
             VNil \<Rightarrow> Inr []
           | VString d \<Rightarrow> Inr d
           | VText d \<Rightarrow> Inr d
           | VVarchar d \<Rightarrow> Inr d
           | VBytes d \<Rightarrow> (case hex_DecodeString rt d of None \<Rightarrow> Inr d | Some b \<Rightarrow> Inr b)
           | d \<Rightarrow> Inr (fmt_Sprintf_v rt d))"

definition Json :: "Query \<Rightarrow> string \<Rightarrow> val" where
  "Json q field = Value q field"

definition StringArray :: "Runtime \<Rightarrow> Query \<Rightarrow> string \<Rightarrow> fault + string list" where
  "StringArray rt q field =
     (if \<not> Contains q field then Inl (CantFindField field)
      else case Value q field of
             VNil \<Rightarrow> Inr []
           | VStrings d \<Rightarrow> Inr d
           | VTextArray elements \<Rightarrow> Inr elements
           | VVarcharArray elements \<Rightarrow> Inr elements
           | _ \<Rightarrow> (case String rt q field of Inl f \<Rightarrow> Inl f | Inr s \<Rightarrow> Inr [s]))"

definition intConvertHelper :: "Runtime \<Rightarrow> ikind \<Rightarrow> val \<Rightarrow> fault + 64 word" where
  "intConvertHelper rt T v =
     (case v of
        VNil \<Rightarrow> Inr 0
      | VBool d \<Rightarrow> Inr (if d then 1 else 0)
      | VInt d \<Rightarrow> Inr d
      | VInt8 d \<Rightarrow> Inr (scast d)
      | VInt16 d \<Rightarrow> Inr (scast d)
      | VInt32 d \<Rightarrow> Inr (scast d)
      | VInt64 d \<Rightarrow> Inr d
      | VUint d \<Rightarrow> Inr d
      | VUint8 d \<Rightarrow> Inr (ucast d)
      | VUint16 d \<Rightarrow> Inr (ucast d)
      | VUint32 d \<Rightarrow> Inr (ucast d)
      | VUint64 d \<Rightarrow> Inr d
      | VFloat32 d \<Rightarrow> Inr (float_to_int rt T d)
      | VFloat64 d \<Rightarrow> Inr (float_to_int rt T d)
      | VString d \<Rightarrow> (case strconv_ParseInt rt d of Some r \<Rightarrow> Inr r | None \<Rightarrow> Inl CantConvert)
      | _ \<Rightarrow> Inl CantConvert)"

definition Int64 :: "Runtime \<Rightarrow> Query \<Rightarrow> string \<Rightarrow> fault + 64 word" where
  "Int64 rt q field =
     (if \<not> Contains q field then Inl (CantFindField field)
      else if Value q field = VNil then Inr 0
      else intConvertHelper rt KInt64 (Value q field))"

definition UInt64 :: "Runtime \<Rightarrow> Query \<Rightarrow> string \<Rightarrow> fault + 64 word" where
  "UInt64 rt q field =
     (if \<not> Contains q field then Inl (CantFindField field)
      else if Value q field = VNil then Inr 0
      else intConvertHelper rt KUInt64 (Value q field))"

text \<open>\<open>Int\<close> (the name is taken by set intersection).\<close>

definition Int' :: "Runtime \<Rightarrow> Query \<Rightarrow> string \<Rightarrow> fault + 64 word" where
  "Int' rt q field =
     (if \<not> Contains q field then Inl (CantFindField field)
      else if Value q field = VNil then Inr 0
      else intConvertHelper rt KInt (Value q field))"

text \<open>\<open>intArrayHelper[T]\<close> for \<open>T\<close> = \<open>int\<close> and \<open>int64\<close>, which convert alike.\<close>

definition intArrayHelper :: "Runtime \<Rightarrow> Query \<Rightarrow> string \<Rightarrow> fault + 64 word list" where
  "intArrayHelper rt q field =
     (if \<not> Contains q field then Inl (CantFindField field)
      else case Value q field of
             VNil \<Rightarrow> Inr []
           | VInt2Array elements \<Rightarrow> Inr (map scast elements)
           | VInt4Array elements \<Rightarrow> Inr (map scast elements)
           | VInt8Array elements \<Rightarrow> Inr elements
           | _ \<Rightarrow> (case Int' rt q field of Inl f \<Rightarrow> Inl f | Inr i \<Rightarrow> Inr [i]))"

definition IntArray :: "Runtime \<Rightarrow> Query \<Rightarrow> string \<Rightarrow> fault + 64 word list" where
  "IntArray rt q field =
     (if \<not> Contains q field then Inl (CantFindField field)
      else if Value q field = VNil then Inr []
      else intArrayHelper rt q field)"

definition IntArray64 :: "Runtime \<Rightarrow> Query \<Rightarrow> string \<Rightarrow> fault + 64 word list" where
  "IntArray64 rt q field =
     (if \<not> Contains q field then Inl (CantFindField field)
      else if Value q field = VNil then Inr []
      else intArrayHelper rt q field)"

definition Bool :: "Query \<Rightarrow> string \<Rightarrow> fault + bool" where
  "Bool q field =
     (if \<not> Contains q field then Inl (CantFindField field)
      else case Value q field of
             VNil \<Rightarrow> Inr False
           | VBool d \<Rightarrow> Inr d
           | VInt d \<Rightarrow> Inr (0 <s d)
           | VInt8 d \<Rightarrow> Inr (0 <s d)
           | VInt16 d \<Rightarrow> Inr (0 <s d)
           | VInt32 d \<Rightarrow> Inr (0 <s d)
           | VInt64 d \<Rightarrow> Inr (0 <s d)
           | VUint d \<Rightarrow> Inr (0 < d)
           | VUint8 d \<Rightarrow> Inr (0 < d)
           | VUint16 d \<Rightarrow> Inr (0 < d)
           | VUint32 d \<Rightarrow> Inr (0 < d)
           | VUint64 d \<Rightarrow> Inr (0 < d)
           | VFloat32 d \<Rightarrow> Inr (float_less (FNum 0) d)
           | VFloat64 d \<Rightarrow> Inr (float_less (FNum 0) d)
           | VString d \<Rightarrow>
               (let s = ToLower d in
                if s = ''true'' \<or> s = ''yes'' then Inr True
                else if s = ''false'' \<or> s = ''no'' then Inr False
                else Inl (CantConvertBool field))
           | _ \<Rightarrow> Inl (CantConvertBool field))"

definition Float64 :: "Runtime \<Rightarrow> Query \<Rightarrow> string \<Rightarrow> fault + gofloat" where
  "Float64 rt q field =
     (if \<not> Contains q field then Inl (CantFindField field)
      else case Value q field of
             VNil \<Rightarrow> Inr (FNum 0)
           | VBool d \<Rightarrow> Inr (if d then FNum 1 else FNum 0)
           | VInt d \<Rightarrow> Inr (int_to_float64 rt (sint d))
           | VInt8 d \<Rightarrow> Inr (int_to_float64 rt (sint d))
           | VInt16 d \<Rightarrow> Inr (int_to_float64 rt (sint d))
           | VInt32 d \<Rightarrow> Inr (int_to_float64 rt (sint d))
           | VInt64 d \<Rightarrow> Inr (int_to_float64 rt (sint d))
           | VUint d \<Rightarrow> Inr (int_to_float64 rt (uint d))
           | VUint8 d \<Rightarrow> Inr (int_to_float64 rt (uint d))
           | VUint16 d \<Rightarrow> Inr (int_to_float64 rt (uint d))
           | VUint32 d \<Rightarrow> Inr (int_to_float64 rt (uint d))
           | VUint64 d \<Rightarrow> Inr (int_to_float64 rt (uint d))
           | VFloat32 d \<Rightarrow> Inr d
           | VFloat64 d \<Rightarrow> Inr d
           | VString d \<Rightarrow>
               (case strconv_ParseFloat rt d of
                  Some r \<Rightarrow> Inr r
                | None \<Rightarrow> Inl (CantConvertFloat field))
           | _ \<Rightarrow> Inl (CantConvertFloat field))"

text \<open>\<open>float32(x)\<close>: zero, the infinities and NaN stay, any other number is rounded.\<close>

definition to_float32 :: "Runtime \<Rightarrow> gofloat \<Rightarrow> gofloat" where
  "to_float32 rt x =
     (case x of FNum r \<Rightarrow> (if r = 0 then FNum 0 else round_float32 rt r) | _ \<Rightarrow> x)"

definition Float32 :: "Runtime \<Rightarrow> Query \<Rightarrow> string \<Rightarrow> fault + gofloat" where
  "Float32 rt q field =
     (case Float64 rt q field of Inl f \<Rightarrow> Inl f | Inr x \<Rightarrow> Inr (to_float32 rt x))"

text \<open>The layout \<open>Time\<close> picks for a string, by its length in bytes.\<close>

definition time_format :: "string \<Rightarrow> string" where
  "time_format d =
     (let format = ''2006-01-02 15:04:05'';
          format = (if length d > length format then ''2006-01-02 15:04:05.000'' else format);
          format = (if length d > length format then ''2006-01-02 15:04:05.000 -0700'' else format)
      in format)"

text \<open>The integer a value of an integer type prints as with \<open>%d\<close>.\<close>

definition integer_of :: "val \<Rightarrow> int option" where
  "integer_of v =
     (case v of
        VInt d \<Rightarrow> Some (sint d) | VInt8 d \<Rightarrow> Some (sint d) | VInt16 d \<Rightarrow> Some (sint d)
      | VInt32 d \<Rightarrow> Some (sint d) | VInt64 d \<Rightarrow> Some (sint d)
      | VUint d \<Rightarrow> Some (uint d) | VUint8 d \<Rightarrow> Some (uint d) | VUint16 d \<Rightarrow> Some (uint d)
      | VUint32 d \<Rightarrow> Some (uint d) | VUint64 d \<Rightarrow> Some (uint d)
      | _ \<Rightarrow> None)"

definition Time :: "Runtime \<Rightarrow> Query \<Rightarrow> string \<Rightarrow> fault + gotime" where
  "Time rt q field =
     (if \<not> Contains q field then Inl (CantFindField field)
      else case Value q field of
             VNil \<Rightarrow> Inr (Instant 0)
           | VTime d \<Rightarrow> Inr d
           | VString d \<Rightarrow>
               (case time_Parse rt (time_format d) d of
                  Some t \<Rightarrow> Inr t
                | None \<Rightarrow> Inl (CantConvertTime field))
           | d \<Rightarrow>
               (case integer_of d of
                  Some n \<Rightarrow>
                    (case micros_ParseDuration rt n of
                       Some dur \<Rightarrow> Inr (time_Add (Instant 0) dur)
                     | None \<Rightarrow> Inl (CantConvertTime field))
                | None \<Rightarrow> Inl (CantConvertTime field)))"

definition TimeArray :: "Runtime \<Rightarrow> Query \<Rightarrow> string \<Rightarrow> fault + gotime list" where
  "TimeArray rt q field =
     (if \<not> Contains q field then Inl (CantFindField field)
      else case Value q field of
             VNil \<Rightarrow> Inr []
           | VTimes d \<Rightarrow> Inr d
           | VTimestampArray elements \<Rightarrow> Inr elements
           | VTimestamptzArray elements \<Rightarrow> Inr elements
           | _ \<Rightarrow> (case Time rt q field of Inl f \<Rightarrow> Inl f | Inr t \<Rightarrow> Inr [t]))"

text \<open>\<open>pgtype.TimeOID\<close>, the wire type of \<open>time\<close> (time of day).\<close>

definition TimeOID :: "32 word" where
  "TimeOID = 1083"

text \<open>\<open>Duration\<close>: a \<open>time.Duration\<close> is an \<open>int64\<close> of nanoseconds, \<open>time.Microsecond\<close>
  is 1000, and the product wraps around.\<close>

definition Duration :: "Runtime \<Rightarrow> Query \<Rightarrow> string \<Rightarrow> fault + 64 word" where
  "Duration rt q field =
     (if \<not> Contains q field then Inl (CantFindField field)
      else
        let t = FieldType q field in
        if t = 0 then Inr 0
        else if t = TimeOID then
          (case Int64 rt q field of Inl f \<Rightarrow> Inl f | Inr ms \<Rightarrow> Inr (1000 * ms))
        else Inl (CantConvertDuration field))"

definition Bytes :: "Query \<Rightarrow> string \<Rightarrow> fault + string" where
  "Bytes q field =
     (if \<not> Contains q field then Inl (CantFindField field)
      else case Value q field of
             VNil \<Rightarrow> Inr []
           | VBytes d \<Rightarrow> Inr d
           | VString d \<Rightarrow> Inr d
           | _ \<Rightarrow> Inl (CantConvertBytes field))"

text \<open>
  The number a value of a numeric type stands for: the integer of an integer type, the
  floating-point value of \<open>float32\<close> and \<open>float64\<close>; \<open>None\<close> for any other value.
\<close>

definition numeric_value :: "val \<Rightarrow> gofloat option" where
  "numeric_value v =
     (case v of
        VFloat32 d \<Rightarrow> Some d
      | VFloat64 d \<Rightarrow> Some d
      | _ \<Rightarrow> map_option (\<lambda>n. FNum (of_int n)) (integer_of v))"

section \<open>A sample session\<close>

text \<open>
  A pool whose connections know the types \<open>text\<close> (25), \<open>int4\<close> (23) and \<open>time\<close>
  (1083); a cursor over one row of four columns, the last of a type the connection
  does not know; a driver that answers every \<open>Exec\<close> with the tag \<open>INSERT 0 1\<close> and
  every \<open>Query\<close> with that cursor; a runtime whose library functions are simple
  stand-ins. \<open>sample_selected\<close> is the \<open>Query\<close> after \<open>Select\<close>, \<open>sample_row\<close> after one
  \<open>Next\<close>, \<open>sample_closed\<close> after \<open>Close\<close>.
\<close>

definition sample_pool :: Pool where
  "sample_pool =
     \<lparr>p_Acquire = None,
      p_DataTypeForOID =
        [25 \<mapsto> \<lparr>dt_Name = ''text'', dt_OID = 25\<rparr>,
         23 \<mapsto> \<lparr>dt_Name = ''int4'', dt_OID = 23\<rparr>,
         1083 \<mapsto> \<lparr>dt_Name = ''time'', dt_OID = 1083\<rparr>]\<rparr>"

definition sample_rows :: Rows where
  "sample_rows =
     \<lparr>r_FieldDescriptions =
        [\<lparr>fd_Name = ''name'', fd_DataTypeOID = 25\<rparr>,
         \<lparr>fd_Name = ''t'', fd_DataTypeOID = 1083\<rparr>,
         \<lparr>fd_Name = ''n'', fd_DataTypeOID = 23\<rparr>,
         \<lparr>fd_Name = ''u'', fd_DataTypeOID = 99999\<rparr>],
      r_current = ([], None),
      r_pending = [([VString ''yes'', VInt64 3661000000, VNil, VInt32 (- 5)], None)],
      r_closed = False, r_err = None, r_tag = ''SELECT 1''\<rparr>"

definition sample_driver :: Driver where
  "sample_driver =
     \<lparr>pool_Exec = (\<lambda>sql. (''INSERT 0 1'', None)),
      tx_Exec = (\<lambda>h sql. (''INSERT 0 1'', None)),
      pool_Query = (\<lambda>sql. Inr sample_rows),
      tx_Query = (\<lambda>h sql. Inr sample_rows)\<rparr>"

definition sample_runtime :: Runtime where
  "sample_runtime =
     \<lparr>strconv_ParseInt = (\<lambda>s. None), strconv_ParseFloat = (\<lambda>s. None),
      float_to_int = (\<lambda>T x. 0), int_to_float64 = (\<lambda>n. FNum (of_int n)),
      round_float32 = (\<lambda>r. FNum r), time_Parse = (\<lambda>layout s. None),
      micros_ParseDuration = (\<lambda>n. Some (word_of_int (1000 * n))),
      hex_DecodeString = (\<lambda>s. None), fmt_Sprintf_v = (\<lambda>v. ''?'')\<rparr>"

definition sample_selected :: Query where
  "sample_selected =
     (case Select sample_driver (NewQuery sample_pool) ''SELECT name, t, n, u FROM s'' of
        Inr (q, err) \<Rightarrow> q
      | Inl f \<Rightarrow> NewQuery sample_pool)"

definition sample_row :: Query where
  "sample_row = fst (Next sample_selected)"

definition sample_closed :: Query where
  "sample_closed = fst (Close sample_row)"

section \<open>Properties of Tx\<close>

lemma sint_of_nat_small:
  assumes "c < 2 ^ 63"
  shows "sint (of_nat c :: 64 word) = int c"
proof -
  have "int c < 2 ^ 63"
    using assms by (metis of_nat_less_iff of_nat_numeral of_nat_power)
  then have "signed_take_bit 63 (int c) = int c"
    by (intro signed_take_bit_int_eq_self) simp_all
  then show ?thesis
    by (simp add: signed_of_nat)
qed

lemma w64_wrap: "(18446744073709551616 :: 64 word) = 0"
  by simp

lemma sint_of_nat_big:
  assumes "2 ^ 63 \<le> c" "c < 2 ^ 64"
  shows "sint (of_nat c :: 64 word) = int c - 2 ^ 64"
proof -
  have b: "2 ^ 63 \<le> int c" "int c < 2 ^ 64"
    using assms by (metis of_nat_le_iff of_nat_numeral of_nat_power, metis of_nat_less_iff of_nat_numeral of_nat_power)
  have e: "(word_of_int (int c - 2 ^ 64) :: 64 word) = of_nat c"
    by (simp add: w64_wrap)
  have "sint (word_of_int (int c - 2 ^ 64) :: 64 word) = signed_take_bit 63 (int c - 2 ^ 64)"
    by (simp only: signed_of_int) simp
  moreover have "signed_take_bit 63 (int c - 2 ^ 64) = int c - 2 ^ 64"
    using b by (intro signed_take_bit_int_eq_self) simp_all
  ultimately show ?thesis
    unfolding e by simp
qed

lemma pos_of_nat: "0 < c \<Longrightarrow> c < 2 ^ 63 \<Longrightarrow> 0 <s (of_nat c :: 64 word)"
  by (simp add: word_sless_alt sint_of_nat_small)

lemma not_pos_of_nat: "2 ^ 63 \<le> c \<Longrightarrow> c \<le> 2 ^ 64 \<Longrightarrow> \<not> 0 <s (of_nat c :: 64 word)"
proof (cases "c = 2 ^ 64")
  case True
  then show ?thesis by (simp add: word_sless_alt)
next
  case False
  assume "2 ^ 63 \<le> c" "c \<le> 2 ^ 64"
  with False have "sint (of_nat c :: 64 word) = int c - 2 ^ 64" "int c < 2 ^ 64"
    by (simp_all add: sint_of_nat_big)
  then show ?thesis
    by (simp add: word_sless_alt)
qed

lemma of_nat_neq_0_64: "0 < c \<Longrightarrow> c < 2 ^ 64 \<Longrightarrow> (of_nat c :: 64 word) \<noteq> 0"
  using of_nat_neq_0 [of c, where 'a = 64] by simp

lemma sint_succ: "sint (c :: 64 word) < 2 ^ 63 - 1 \<Longrightarrow> sint (c + 1) = sint c + 1"
proof -
  assume a: "sint c < 2 ^ 63 - 1"
  have g: "- (2 ^ 63) \<le> sint c"
    using sint_ge [of c] by simp
  have "sint (c + 1) = signed_take_bit 63 (sint c + 1)"
    by (simp add: sint_word_ariths)
  also have "\<dots> = sint c + 1"
    using a g by (intro signed_take_bit_int_eq_self) simp_all
  finally show ?thesis .
qed

lemma sint_pred: "- (2 ^ 63) < sint (c :: 64 word) \<Longrightarrow> sint (c - 1) = sint c - 1"
proof -
  assume a: "- (2 ^ 63) < sint c"
  have g: "sint c < 2 ^ 63"
    using sint_lt [of c] by simp
  have "sint (c - 1) = signed_take_bit 63 (sint c - 1)"
    by (simp add: sint_word_ariths)
  also have "\<dots> = sint c - 1"
    using a g by (intro signed_take_bit_int_eq_self) simp_all
  finally show ?thesis .
qed


lemma run_append:
  "run (cs @ ds) t =
     (case run cs t of
        Inl f \<Rightarrow> Inl f
      | Inr (t1, es, ps) \<Rightarrow>
          (case run ds t1 of
             Inl f \<Rightarrow> Inl f
           | Inr (t2, es', qs) \<Rightarrow> Inr (t2, es @ es', ps @ qs)))"
  by (induction cs arbitrary: t) (auto split: sum.splits prod.splits)

lemma run_seq:
  "run cs t = Inr (t1, es, ps) \<Longrightarrow> run ds t1 = Inr (t2, es', qs) \<Longrightarrow>
   run (cs @ ds) t = Inr (t2, es @ es', ps @ qs)"
  by (simp add: run_append)

lemma run_seq_fault:
  "run cs t = Inr (t1, es, ps) \<Longrightarrow> run ds t1 = Inl f \<Longrightarrow> run (cs @ ds) t = Inl f"
  by (simp add: run_append)

lemma run_nested_begins_any:
  "tx_counter t = of_nat c \<Longrightarrow> 0 < c \<Longrightarrow> c + length rs \<le> 2 ^ 63 \<Longrightarrow>
   run (map CallBegin rs) t =
     Inr (t\<lparr>tx_counter := of_nat (c + length rs)\<rparr>, replicate (length rs) None, [])"
proof (induction rs arbitrary: t c)
  case Nil
  then show ?case by simp
next
  case (Cons r rs)
  have p: "0 <s tx_counter t"
    using Cons.prems by (simp add: pos_of_nat)
  have s: "Begin r t = (t\<lparr>tx_counter := of_nat (Suc c)\<rparr>, None, [])"
    using p Cons.prems(1) by (simp add: Begin_def BeginTx_def)
  have "run (map CallBegin rs) (t\<lparr>tx_counter := of_nat (Suc c)\<rparr>) =
        Inr (t\<lparr>tx_counter := of_nat (Suc c)\<rparr>\<lparr>tx_counter := of_nat (Suc c + length rs)\<rparr>,
             replicate (length rs) None, [])"
    using Cons.prems by (intro Cons.IH) simp_all
  then show ?case
    using s by simp
qed

lemma run_nested_begins:
  "tx_counter t = of_nat c \<Longrightarrow> 0 < c \<Longrightarrow> c + n \<le> 2 ^ 63 \<Longrightarrow>
   run (replicate n (CallBegin resp)) t =
     Inr (t\<lparr>tx_counter := of_nat (c + n)\<rparr>, replicate n None, [])"
  using run_nested_begins_any [of t c "replicate n resp"] by simp

lemma run_nested_commits:
  "tx_counter t = of_nat c \<Longrightarrow> n < c \<Longrightarrow> c \<le> 2 ^ 63 \<Longrightarrow>
   run (replicate n (CallCommit resp)) t =
     Inr (t\<lparr>tx_counter := of_nat (c - n)\<rparr>, replicate n None, [])"
proof (induction n arbitrary: t c)
  case 0
  then show ?case by simp
next
  case (Suc n)
  obtain d where d: "c = Suc d"
    using Suc.prems(2) by (cases c) auto
  have nz: "tx_counter t \<noteq> 0"
    using Suc.prems by (simp add: of_nat_neq_0_64)
  have m: "tx_counter t - 1 = of_nat d"
    using Suc.prems(1) d by simp
  have p: "0 <s (of_nat d :: 64 word)"
    using Suc.prems d by (intro pos_of_nat) simp_all
  have s: "Commit resp t = Inr (t\<lparr>tx_counter := of_nat d\<rparr>, None, [])"
    using nz m p by (simp add: Commit_def Let_def)
  have "run (replicate n (CallCommit resp)) (t\<lparr>tx_counter := of_nat d\<rparr>) =
        Inr (t\<lparr>tx_counter := of_nat d\<rparr>\<lparr>tx_counter := of_nat (d - n)\<rparr>, replicate n None, [])"
    using Suc.prems d by (intro Suc.IH) simp_all
  then show ?case
    using s d by simp
qed

lemma run_begins_fresh:
  "Suc n \<le> 2 ^ 63 \<Longrightarrow>
   run (replicate (Suc n) (CallBegin (Inr h))) (NewTx pool) =
     Inr (\<lparr>tx_pool = pool, tx_counter = of_nat (Suc n), tx_tx = Some h\<rparr>, replicate (Suc n) None,
          [PhysBegin ''read committed'' ''read write''])"
proof -
  assume b: "Suc n \<le> 2 ^ 63"
  let ?u = "\<lparr>tx_pool = pool, tx_counter = of_nat 1, tx_tx = Some h\<rparr>"
  have "run (replicate n (CallBegin (Inr h))) ?u =
        Inr (?u\<lparr>tx_counter := of_nat (1 + n)\<rparr>, replicate n None, [])"
    using b by (intro run_nested_begins) simp_all
  then show ?thesis
    by (simp add: Begin_def BeginTx_def NewTx_def)
qed


lemma run_begins_first:
  assumes "length hs < 2 ^ 63"
  shows "run (begins (h # hs)) (NewTx pool) =
     Inr (\<lparr>tx_pool = pool, tx_counter = of_nat (Suc (length hs)), tx_tx = Some h\<rparr>,
          replicate (Suc (length hs)) None, [PhysBegin ''read committed'' ''read write''])"
proof -
  let ?u = "\<lparr>tx_pool = pool, tx_counter = of_nat 1, tx_tx = Some h\<rparr>"
  have "run (map CallBegin (map Inr hs)) ?u =
        Inr (?u\<lparr>tx_counter := of_nat (1 + length (map Inr hs))\<rparr>,
             replicate (length (map Inr hs)) None, [])"
    using assms run_nested_begins_any [of ?u 1 "map Inr hs"] by simp
  then show ?thesis
    by (simp add: begins_def Begin_def BeginTx_def NewTx_def comp_def)
qed

lemma run_begins_state:
  "\<exists>tx' ps. run (begins hs) t =
      Inr (t\<lparr>tx_counter := tx_counter t + of_nat (length hs), tx_tx := tx'\<rparr>,
           replicate (length hs) None, ps) \<and>
    (tx' = tx_tx t \<or> tx' \<in> Some ` set hs)"
proof (induction hs arbitrary: t)
  case Nil
  then show ?case by (simp add: begins_def)
next
  case (Cons h hs)
  obtain t1 ps1 where s: "Begin (Inr h) t = (t1, None, ps1)"
    and c1: "tx_counter t1 = tx_counter t + 1"
    and x1: "tx_tx t1 = tx_tx t \<or> tx_tx t1 = Some h"
    and p1: "tx_pool t1 = tx_pool t"
    by (cases "0 <s tx_counter t") (simp_all add: Begin_def BeginTx_def)
  from Cons.IH [of t1]
  obtain tx' ps where r: "run (begins hs) t1 =
      Inr (t1\<lparr>tx_counter := tx_counter t1 + of_nat (length hs), tx_tx := tx'\<rparr>,
           replicate (length hs) None, ps)"
    and x: "tx' = tx_tx t1 \<or> tx' \<in> Some ` set hs"
    by blast
  have e: "t1\<lparr>tx_counter := tx_counter t1 + of_nat (length hs), tx_tx := tx'\<rparr> =
           t\<lparr>tx_counter := tx_counter t + of_nat (length (h # hs)), tx_tx := tx'\<rparr>"
    using c1 p1 by (cases t, cases t1) simp
  have "run (begins (h # hs)) t =
      Inr (t\<lparr>tx_counter := tx_counter t + of_nat (length (h # hs)), tx_tx := tx'\<rparr>,
           replicate (length (h # hs)) None, ps1 @ ps)"
    using s r e by (simp add: begins_def)
  moreover have "tx' = tx_tx t \<or> tx' \<in> Some ` set (h # hs)"
    using x x1 by auto
  ultimately show ?case
    by blast
qed

lemma run_begins_fresh_state:
  assumes "hs \<noteq> []"
  shows "\<exists>h' ps. h' \<in> set hs \<and>
     run (begins hs) (NewTx pool) =
       Inr (\<lparr>tx_pool = pool, tx_counter = of_nat (length hs), tx_tx = Some h'\<rparr>,
            replicate (length hs) None, ps)"
proof -
  obtain h hs' where hs: "hs = h # hs'"
    using assms by (cases hs) auto
  let ?u = "\<lparr>tx_pool = pool, tx_counter = 1, tx_tx = Some h\<rparr>"
  have s: "Begin (Inr h) (NewTx pool) = (?u, None, [PhysBegin ''read committed'' ''read write''])"
    by (simp add: Begin_def BeginTx_def NewTx_def)
  from run_begins_state [of hs' ?u]
  obtain tx' ps where r: "run (begins hs') ?u =
      Inr (?u\<lparr>tx_counter := tx_counter ?u + of_nat (length hs'), tx_tx := tx'\<rparr>,
           replicate (length hs') None, ps)"
    and x: "tx' = tx_tx ?u \<or> tx' \<in> Some ` set hs'"
    by blast
  from x obtain h' where h': "tx' = Some h'" "h' \<in> set hs"
    using hs by auto
  have "run (begins hs) (NewTx pool) =
       Inr (\<lparr>tx_pool = pool, tx_counter = of_nat (length hs), tx_tx = Some h'\<rparr>,
            replicate (length hs) None, [PhysBegin ''read committed'' ''read write''] @ ps)"
    using s r h' hs by (simp add: begins_def)
  then show ?thesis
    using h' by blast
qed


lemma run_nested_prefix_begins:
  assumes "0 < m" "m \<le> N" "N \<le> 2 ^ 63"
  shows "run (take m (nested N h)) (NewTx pool) =
           Inr (\<lparr>tx_pool = pool, tx_counter = of_nat m, tx_tx = Some h\<rparr>, replicate m None,
                [PhysBegin ''read committed'' ''read write''])"
proof -
  obtain k where k: "m = Suc k"
    using assms(1) by (cases m) auto
  have "take m (nested N h) = replicate m (CallBegin (Inr h))"
    using assms(2) by (simp add: nested_def min_def)
  moreover have "Suc k \<le> 2 ^ 63"
    using assms k by simp
  ultimately show ?thesis
    using run_begins_fresh [of k h pool] k by simp
qed

lemma run_nested_prefix_commits:
  assumes "N < m" "m < 2 * N" "N \<le> 2 ^ 63"
  shows "run (take m (nested N h)) (NewTx pool) =
           Inr (\<lparr>tx_pool = pool, tx_counter = of_nat (2 * N - m), tx_tx = Some h\<rparr>, replicate m None,
                [PhysBegin ''read committed'' ''read write''])"
proof -
  obtain k where k: "N = Suc k"
    using assms by (cases N) auto
  let ?t = "\<lparr>tx_pool = pool, tx_counter = of_nat N, tx_tx = Some h\<rparr>"
  have tk: "take m (nested N h) =
            replicate N (CallBegin (Inr h)) @ replicate (m - N) (CallCommit None)"
    using assms by (simp add: nested_def min_def)
  have b: "run (replicate N (CallBegin (Inr h))) (NewTx pool) =
           Inr (?t, replicate N None, [PhysBegin ''read committed'' ''read write''])"
    using run_begins_fresh [of k h pool] k assms(3) by simp
  have c: "run (replicate (m - N) (CallCommit None)) ?t =
           Inr (?t\<lparr>tx_counter := of_nat (N - (m - N))\<rparr>, replicate (m - N) None, [])"
    using assms by (intro run_nested_commits) simp_all
  have n: "N - (m - N) = 2 * N - m"
    using assms by simp
  have r: "replicate N None @ replicate (m - N) None = (replicate m None :: error option list)"
    using assms by (simp add: replicate_add [symmetric])
  show ?thesis
    unfolding tk run_append b using c n r by simp
qed

lemma run_nested_all:
  assumes "1 \<le> N" "N \<le> 2 ^ 63"
  shows "run (nested N h) (NewTx pool) =
           Inr (NewTx pool, replicate (2 * N) None,
                [PhysBegin ''read committed'' ''read write'', PhysCommit h])"
proof -
  obtain k where k: "N = Suc k"
    using assms by (cases N) auto
  let ?t = "\<lparr>tx_pool = pool, tx_counter = of_nat N, tx_tx = Some h\<rparr>"
  let ?u = "\<lparr>tx_pool = pool, tx_counter = 1, tx_tx = Some h\<rparr>"
  have sp: "nested N h =
            replicate N (CallBegin (Inr h)) @ replicate k (CallCommit None) @ [CallCommit None]"
    using k by (simp add: nested_def replicate_append_same)
  have b: "run (replicate N (CallBegin (Inr h))) (NewTx pool) =
           Inr (?t, replicate N None, [PhysBegin ''read committed'' ''read write''])"
    using run_begins_fresh [of k h pool] k assms(2) by simp
  have "run (replicate k (CallCommit None)) ?t =
           Inr (?t\<lparr>tx_counter := of_nat (N - k)\<rparr>, replicate k None, [])"
    using assms k by (intro run_nested_commits) simp_all
  then have c: "run (replicate k (CallCommit None)) ?t = Inr (?u, replicate k None, [])"
    using k by simp
  have l: "run [CallCommit None] ?u = Inr (NewTx pool, [None], [PhysCommit h])"
    by (simp add: Commit_def NewTx_def nerr_New_def)
  have r: "replicate N None @ replicate k None @ [None] = (replicate (2 * N) None :: error option list)"
    using k by (simp add: replicate_app_Cons_same mult_2 replicate_add)
  show ?thesis
    unfolding sp run_append b using c l r by (simp add: run_append)
qed

text \<open>
  Claim C5 (nesting symmetry), amended. For every \<open>N\<close> from 1 to \<open>2 ^ 63\<close>, \<open>N\<close> calls of
  \<open>Begin\<close> followed by \<open>N\<close> calls of \<open>Commit\<close> on a new \<open>Tx\<close>, with no \<open>Rollback\<close> and
  no driver failure: every call returns no error; after each proper prefix of \<open>m\<close> calls
  the only physical operation issued so far is the one begin (already there after the
  first call) and \<open>Level\<close> is not 0 (it is \<open>m\<close> while beginning, \<open>2N - m\<close> while
  committing, as a 64-bit value, so each intermediate \<open>Commit\<close> lowers the counter by one
  and reaches nothing physical); the whole sequence issues exactly one physical begin
  and one physical commit, the commit on the \<open>N\<close>th \<open>Commit\<close>, and only then \<open>Level\<close>
  is 0.
\<close>

theorem nesting_symmetry:
  assumes "1 \<le> N" and "N \<le> 2 ^ 63"
  shows "(\<forall>m. 0 < m \<and> m < 2 * N \<longrightarrow>
            (\<exists>t. run (take m (nested N h)) (NewTx pool) =
                    Inr (t, replicate m None, [PhysBegin ''read committed'' ''read write'']) \<and>
                  Level t = (if m \<le> N then of_nat m else of_nat (2 * N - m)) \<and> Level t \<noteq> 0)) \<and>
         (\<exists>t. run (nested N h) (NewTx pool) =
                 Inr (t, replicate (2 * N) None,
                      [PhysBegin ''read committed'' ''read write'', PhysCommit h]) \<and>
               Level t = 0 \<and> tx_tx t = None)"
proof (intro conjI allI impI)
  fix m
  assume m: "0 < m \<and> m < 2 * N"
  show "\<exists>t. run (take m (nested N h)) (NewTx pool) =
              Inr (t, replicate m None, [PhysBegin ''read committed'' ''read write'']) \<and>
            Level t = (if m \<le> N then of_nat m else of_nat (2 * N - m)) \<and> Level t \<noteq> 0"
  proof (cases "m \<le> N")
    case True
    then have "(of_nat m :: 64 word) \<noteq> 0"
      using m assms(2) by (intro of_nat_neq_0_64) simp_all
    then show ?thesis
      using True run_nested_prefix_begins [of m N h pool] m assms(2) by (simp add: Level_def)
  next
    case False
    then have "(of_nat (2 * N - m) :: 64 word) \<noteq> 0"
      using m assms(2) by (intro of_nat_neq_0_64) simp_all
    then show ?thesis
      using False run_nested_prefix_commits [of N m h pool] m assms(2) by (simp add: Level_def)
  qed
next
  show "\<exists>t. run (nested N h) (NewTx pool) =
              Inr (t, replicate (2 * N) None,
                   [PhysBegin ''read committed'' ''read write'', PhysCommit h]) \<and>
            Level t = 0 \<and> tx_tx t = None"
    using run_nested_all [OF assms, of h pool] by (simp add: Level_def NewTx_def)
qed

theorem nesting_symmetry_witness:
  "(1::nat) \<le> 2 \<and> (2::nat) \<le> 2 ^ 63 \<and>
   (\<exists>t. run (take 3 (nested 2 7)) (NewTx \<lparr>p_Acquire = None, p_DataTypeForOID = Map.empty\<rparr>) =
          Inr (t, [None, None, None], [PhysBegin ''read committed'' ''read write'']) \<and>
        Level t = 1) \<and>
   (\<exists>t. run (nested 2 7) (NewTx \<lparr>p_Acquire = None, p_DataTypeForOID = Map.empty\<rparr>) =
          Inr (t, [None, None, None, None],
               [PhysBegin ''read committed'' ''read write'', PhysCommit 7]) \<and>
        Level t = 0 \<and> tx_tx t = None)"
proof -
  have n: "(1::nat) \<le> 2"
    by simp
  have b: "(2::nat) \<le> 2 ^ 63"
    by simp
  have r: "replicate 3 None = [None, None, (None :: error option)]"
          "replicate (2 * 2) None = [None, None, None, (None :: error option)]"
    by (simp_all add: numeral_3_eq_3 numeral_Bit0)
  have m: "(0::nat) < 3 \<and> (3::nat) < 2 * 2"
    by simp
  note s = nesting_symmetry [OF n b, of 7 "\<lparr>p_Acquire = None, p_DataTypeForOID = Map.empty\<rparr>"]
  from s have "\<exists>t. run (take 3 (nested 2 7)) (NewTx \<lparr>p_Acquire = None, p_DataTypeForOID = Map.empty\<rparr>) =
          Inr (t, replicate 3 None, [PhysBegin ''read committed'' ''read write'']) \<and>
        Level t = (if (3::nat) \<le> 2 then of_nat 3 else of_nat (2 * 2 - 3)) \<and> Level t \<noteq> 0"
    using m by blast
  moreover from s have "\<exists>t. run (nested 2 7) (NewTx \<lparr>p_Acquire = None, p_DataTypeForOID = Map.empty\<rparr>) =
          Inr (t, replicate (2 * 2) None,
               [PhysBegin ''read committed'' ''read write'', PhysCommit 7]) \<and>
        Level t = 0 \<and> tx_tx t = None"
    by blast
  ultimately show ?thesis
    using n b unfolding r by auto
qed

text \<open>
  The claim as stated, for every \<open>N\<close>, fails at \<open>N = 2 ^ 63 + 1\<close>: after \<open>2 ^ 63\<close> calls of
  \<open>Begin\<close> the counter has wrapped to the least 64-bit value, which is not positive, so
  the next \<open>Begin\<close> opens a second physical transaction; \<open>Level\<close> is then negative, and
  the \<open>N\<close> calls of \<open>Commit\<close> end in a panic, the last one finding the counter at 0
  after the decrement and no handle.
\<close>

theorem nesting_overflow_counterexample:
  "(\<exists>t. run (take (Suc (2 ^ 63)) (nested (Suc (2 ^ 63)) 7))
            (NewTx \<lparr>p_Acquire = None, p_DataTypeForOID = Map.empty\<rparr>) =
          Inr (t, replicate (Suc (2 ^ 63)) None,
               [PhysBegin ''read committed'' ''read write'',
                PhysBegin ''read committed'' ''read write'']) \<and>
        Level t <s 0) \<and>
   run (nested (Suc (2 ^ 63)) 7) (NewTx \<lparr>p_Acquire = None, p_DataTypeForOID = Map.empty\<rparr>) =
     Inl NilDereference"
proof -
  define M :: nat where "M = 2 ^ 63"
  define P :: Pool where "P = \<lparr>p_Acquire = None, p_DataTypeForOID = Map.empty\<rparr>"
  obtain n where n: "M = Suc n"
    by (cases M) (simp_all add: M_def)
  have M63: "M \<le> 2 ^ 63" "2 ^ 63 \<le> M" "M \<le> 2 ^ 64" "Suc M < 2 ^ 64"
    by (simp_all add: M_def)
  let ?b = "CallBegin (Inr 7)"
  let ?c = "CallCommit None"
  let ?rc = "PhysBegin ''read committed'' ''read write''"
  let ?t = "\<lparr>tx_pool = P, tx_counter = of_nat M, tx_tx = Some 7\<rparr>"
  let ?s0 = "\<lparr>tx_pool = P, tx_counter = of_nat (Suc M), tx_tx = Some 7\<rparr>"
  let ?s1 = "\<lparr>tx_pool = P, tx_counter = of_nat M, tx_tx = None\<rparr>"
  let ?s2 = "\<lparr>tx_pool = P, tx_counter = 1, tx_tx = None\<rparr>"
  have b1: "run (replicate M ?b) (NewTx P) = Inr (?t, replicate M None, [?rc])"
    using run_begins_fresh [of n 7 P] n M63(1) by simp
  have np: "\<not> 0 <s (of_nat M :: 64 word)"
    using M63 by (intro not_pos_of_nat)
  have b2: "run [?b] ?t = Inr (?s0, [None], [?rc])"
    using np by (simp add: Begin_def BeginTx_def)
  have bs: "run (replicate (Suc M) ?b) (NewTx P) = Inr (?s0, replicate (Suc M) None, [?rc, ?rc])"
  proof -
    have sp: "replicate (Suc M) ?b = replicate M ?b @ [?b]"
      by (simp add: replicate_append_same)
    have rr: "replicate M None @ [None] = (replicate (Suc M) None :: error option list)"
      by (simp add: replicate_append_same)
    show ?thesis
      using run_seq [OF b1 b2] unfolding sp rr by simp
  qed
  have neg: "(of_nat (Suc M) :: 64 word) <s 0"
    using sint_of_nat_big [of "Suc M"] M63 by (simp add: word_sless_alt)
  have nz: "(of_nat (Suc M) :: 64 word) \<noteq> 0"
    using M63 by (intro of_nat_neq_0_64) simp_all
  have c1: "run [?c] ?s0 = Inr (?s1, [None], [PhysCommit 7])"
    using nz np by (simp add: Commit_def Let_def nerr_New_def)
  have "run (replicate n ?c) ?s1 = Inr (?s1\<lparr>tx_counter := of_nat (M - n)\<rparr>, replicate n None, [])"
    using n M63(1) by (intro run_nested_commits) simp_all
  then have c2: "run (replicate n ?c) ?s1 = Inr (?s2, replicate n None, [])"
    using n by simp
  have c3: "run [?c] ?s2 = Inl NilDereference"
    by (simp add: Commit_def Let_def)
  have cs: "run (replicate (Suc M) ?c) ?s0 = Inl NilDereference"
  proof -
    have sp: "replicate (Suc M) ?c = ([?c] @ replicate n ?c) @ [?c]"
      using n by (simp add: replicate_append_same)
    show ?thesis
      unfolding sp by (rule run_seq_fault [OF run_seq [OF c1 c2] c3])
  qed
  have tk: "take (Suc M) (nested (Suc M) 7) = replicate (Suc M) ?b"
    by (simp add: nested_def)
  have full: "run (nested (Suc M) 7) (NewTx P) = Inl NilDereference"
    unfolding nested_def by (rule run_seq_fault [OF bs cs])
  have "\<exists>t. run (take (Suc M) (nested (Suc M) 7)) (NewTx P) =
          Inr (t, replicate (Suc M) None, [?rc, ?rc]) \<and> Level t <s 0"
    unfolding tk using bs neg by (simp add: Level_def)
  then show ?thesis
    using full unfolding M_def P_def by blast
qed


lemma Rollback_with_handle:
  "tx_counter t \<noteq> 0 \<Longrightarrow> tx_tx t = Some h \<Longrightarrow>
   Rollback resp t = Inr (NewTx (tx_pool t), nerr_New resp, [PhysRollback h])"
  by (cases resp; cases t) (simp_all add: Rollback_def NewTx_def nerr_New_def)

lemma Commit_at_level_0:
  "tx_counter t = 0 \<Longrightarrow> Commit resp t = Inr (t, Some (NerrText ''no transaction to commit''), [])"
  by (simp add: Commit_def)

lemma Rollback_at_level_0:
  "tx_counter t = 0 \<Longrightarrow> Rollback resp t = Inr (t, Some (NerrText ''no transaction to rollback''), [])"
  by (simp add: Rollback_def)

lemma of_nat_64_neq_0: "\<not> 2 ^ 64 dvd k \<Longrightarrow> (of_nat k :: 64 word) \<noteq> 0"
  by (simp add: word_of_nat_eq_0_iff)

text \<open>
  Claim C6 (rollback supersedes nesting), amended. After \<open>k \<ge> 1\<close> successful calls of
  \<open>Begin\<close> on a new \<open>Tx\<close>, \<open>k\<close> not a multiple of \<open>2 ^ 64\<close> (so that the 64-bit counter,
  which is \<open>k\<close> modulo \<open>2 ^ 64\<close>, is not 0), a handle the driver gave is stored and a
  single \<open>Rollback\<close> issues the physical rollback on it, returns the driver's outcome
  and leaves \<open>Level\<close> at 0 with no handle; from there every \<open>Commit\<close> and every
  \<open>Rollback\<close> returns the error "no transaction to commit" / "no transaction to
  rollback", issues nothing and changes nothing. For \<open>k\<close> up to \<open>2 ^ 63\<close> the calls of
  \<open>Begin\<close> have issued exactly one physical begin and the handle is the first one. In
  particular Begin, Begin, Rollback, Commit (the driver succeeding) returns no error
  three times and then the error of the trailing \<open>Commit\<close>.
\<close>

theorem rollback_supersedes_nesting:
  assumes "hs \<noteq> []" and "\<not> 2 ^ 64 dvd length hs"
  shows "\<exists>t t' h' ps.
           run (begins hs) (NewTx pool) = Inr (t, replicate (length hs) None, ps) \<and>
           h' \<in> set hs \<and> tx_tx t = Some h' \<and>
           Level t = of_nat (length hs) \<and> Level t \<noteq> 0 \<and>
           (length hs \<le> 2 ^ 63 \<longrightarrow>
              ps = [PhysBegin ''read committed'' ''read write''] \<and> h' = hd hs) \<and>
           Rollback resp t = Inr (t', nerr_New resp, [PhysRollback h']) \<and>
           Level t' = 0 \<and> tx_tx t' = None \<and>
           (\<forall>r. Commit r t' = Inr (t', Some (NerrText ''no transaction to commit''), [])) \<and>
           (\<forall>r. Rollback r t' = Inr (t', Some (NerrText ''no transaction to rollback''), [])) \<and>
           run [CallBegin (Inr g), CallBegin (Inr g), CallRollback None, CallCommit None] (NewTx pool) =
             Inr (t', [None, None, None, Some (NerrText ''no transaction to commit'')],
                  [PhysBegin ''read committed'' ''read write'', PhysRollback g])"
proof -
  have nz: "(of_nat (length hs) :: 64 word) \<noteq> 0"
    using assms(2) by (rule of_nat_64_neq_0)
  have z: "Level (NewTx pool) = 0 \<and> tx_tx (NewTx pool) = None"
    by (simp add: Level_def NewTx_def)
  have c: "\<forall>r. Commit r (NewTx pool) =
                Inr (NewTx pool, Some (NerrText ''no transaction to commit''), [])"
    by (simp add: Commit_at_level_0 NewTx_def)
  have d: "\<forall>r. Rollback r (NewTx pool) =
                Inr (NewTx pool, Some (NerrText ''no transaction to rollback''), [])"
    by (simp add: Rollback_at_level_0 NewTx_def)
  have s: "run [CallBegin (Inr g), CallBegin (Inr g), CallRollback None, CallCommit None] (NewTx pool) =
             Inr (NewTx pool, [None, None, None, Some (NerrText ''no transaction to commit'')],
                  [PhysBegin ''read committed'' ''read write'', PhysRollback g])"
    by (simp add: Begin_def BeginTx_def Rollback_def Commit_def NewTx_def word_sless_alt)
  show ?thesis
  proof (cases "length hs \<le> 2 ^ 63")
    case True
    obtain h hs' where hs: "hs = h # hs'"
      using assms(1) by (cases hs) auto
    let ?t = "\<lparr>tx_pool = pool, tx_counter = of_nat (length hs), tx_tx = Some h\<rparr>"
    have b: "run (begins hs) (NewTx pool) =
             Inr (?t, replicate (length hs) None, [PhysBegin ''read committed'' ''read write''])"
      using run_begins_first [of hs' h pool] True hs by simp
    have r: "Rollback resp ?t = Inr (NewTx pool, nerr_New resp, [PhysRollback h])"
      using nz Rollback_with_handle [of ?t h resp] by simp
    have "h \<in> set hs" "tx_tx ?t = Some h" "Level ?t = of_nat (length hs)" "Level ?t \<noteq> 0"
         "h = hd hs"
      using hs nz by (simp_all add: Level_def)
    then show ?thesis
      using b r z c d s by blast
  next
    case False
    from run_begins_fresh_state [OF assms(1), of pool]
    obtain h' ps where h': "h' \<in> set hs"
      and b: "run (begins hs) (NewTx pool) =
         Inr (\<lparr>tx_pool = pool, tx_counter = of_nat (length hs), tx_tx = Some h'\<rparr>,
              replicate (length hs) None, ps)"
      by blast
    let ?t = "\<lparr>tx_pool = pool, tx_counter = of_nat (length hs), tx_tx = Some h'\<rparr>"
    have r: "Rollback resp ?t = Inr (NewTx pool, nerr_New resp, [PhysRollback h'])"
      using nz Rollback_with_handle [of ?t h' resp] by simp
    have "tx_tx ?t = Some h'" "Level ?t = of_nat (length hs)" "Level ?t \<noteq> 0"
      using nz by (simp_all add: Level_def)
    then show ?thesis
      using False h' b r z c d s by blast
  qed
qed

theorem rollback_supersedes_nesting_witness:
  "[7, 8, 9] \<noteq> ([] :: txh list) \<and> \<not> (2 ^ 64 :: nat) dvd length [7, 8, 9 :: txh] \<and>
   (\<exists>t t'.
      run (begins [7, 8, 9]) (NewTx \<lparr>p_Acquire = None, p_DataTypeForOID = Map.empty\<rparr>) =
        Inr (t, [None, None, None], [PhysBegin ''read committed'' ''read write'']) \<and>
      Level t = 3 \<and>
      Rollback (Some (DriverError ''conn closed'')) t =
        Inr (t', Some (NerrWrap (DriverError ''conn closed'')), [PhysRollback 7]) \<and>
      Level t' = 0 \<and>
      Commit None t' = Inr (t', Some (NerrText ''no transaction to commit''), []))"
proof -
  have n: "[7, 8, 9] \<noteq> ([] :: txh list)"
    by simp
  have d: "\<not> (2 ^ 64 :: nat) dvd length [7, 8, 9 :: txh]"
    by (intro nat_dvd_not_less) simp_all
  have l: "length [7, 8, 9 :: txh] \<le> 2 ^ 63"
    by simp
  show ?thesis
    using n d l rollback_supersedes_nesting [OF n d,
        where pool = "\<lparr>p_Acquire = None, p_DataTypeForOID = Map.empty\<rparr>"
          and resp = "Some (DriverError ''conn closed'')" and g = 0]
    by (auto simp: nerr_New_def simp del: run.simps)
qed

text \<open>
  The claim as stated, for every \<open>k \<ge> 1\<close>, fails at \<open>k = 2 ^ 64\<close>: all calls of \<open>Begin\<close>
  return no error, the counter has wrapped around to 0 with a handle stored, and
  \<open>Rollback\<close> returns the error "no transaction to rollback" without a physical
  rollback.
\<close>

theorem rollback_overflow_counterexample:
  "\<exists>t ps. run (begins (replicate (2 ^ 64) 7)) (NewTx \<lparr>p_Acquire = None, p_DataTypeForOID = Map.empty\<rparr>) =
            Inr (t, replicate (2 ^ 64) None, ps) \<and>
          tx_tx t = Some 7 \<and> Level t = 0 \<and>
          Rollback None t = Inr (t, Some (NerrText ''no transaction to rollback''), [])"
proof -
  define P :: Pool where "P = \<lparr>p_Acquire = None, p_DataTypeForOID = Map.empty\<rparr>"
  define hs :: "txh list" where "hs = replicate (2 ^ 64) 7"
  have ne: "hs \<noteq> []"
    by (simp add: hs_def)
  have len: "length hs = 2 ^ 64"
    by (simp add: hs_def)
  from run_begins_fresh_state [OF ne, of P]
  obtain h' ps where h': "h' \<in> set hs"
    and b: "run (begins hs) (NewTx P) =
       Inr (\<lparr>tx_pool = P, tx_counter = of_nat (length hs), tx_tx = Some h'\<rparr>,
            replicate (length hs) None, ps)"
    by blast
  have h7: "h' = 7"
    using h' by (simp add: hs_def)
  have z: "(of_nat (length hs) :: 64 word) = 0"
    unfolding len word_of_nat_eq_0_iff by simp
  let ?t = "\<lparr>tx_pool = P, tx_counter = 0, tx_tx = Some 7\<rparr>"
  have "run (begins hs) (NewTx P) = Inr (?t, replicate (2 ^ 64) None, ps)"
    using b h7 z len by simp
  moreover have "tx_tx ?t = Some 7" "Level ?t = 0"
    by (simp_all add: Level_def)
  moreover have "Rollback None ?t = Inr (?t, Some (NerrText ''no transaction to rollback''), [])"
    by (simp add: Rollback_at_level_0)
  ultimately show ?thesis
    unfolding hs_def P_def by blast
qed

text \<open>
  Claim C7 (commit/rollback without transaction). On a \<open>Tx\<close> whose \<open>Level\<close> is 0,
  \<open>Commit\<close> and \<open>Rollback\<close> return normally (\<open>Inr\<close>, no panic) with the error
  "no transaction to commit" / "no transaction to rollback", issue no physical
  operation, and leave the \<open>Tx\<close> as it was, so \<open>Level\<close> is still 0.
\<close>

theorem commit_rollback_without_transaction:
  assumes "Level t = 0"
  shows "Commit resp t = Inr (t, Some (NerrText ''no transaction to commit''), []) \<and>
         Rollback resp' t = Inr (t, Some (NerrText ''no transaction to rollback''), []) \<and>
         Level t = 0"
  using assms by (simp add: Level_def Commit_def Rollback_def)

theorem commit_rollback_without_transaction_witness:
  "Level (NewTx \<lparr>p_Acquire = None, p_DataTypeForOID = Map.empty\<rparr>) = 0 \<and>
   Commit None (NewTx \<lparr>p_Acquire = None, p_DataTypeForOID = Map.empty\<rparr>) =
     Inr (NewTx \<lparr>p_Acquire = None, p_DataTypeForOID = Map.empty\<rparr>,
          Some (NerrText ''no transaction to commit''), []) \<and>
   Rollback None (NewTx \<lparr>p_Acquire = None, p_DataTypeForOID = Map.empty\<rparr>) =
     Inr (NewTx \<lparr>p_Acquire = None, p_DataTypeForOID = Map.empty\<rparr>,
          Some (NerrText ''no transaction to rollback''), [])"
proof -
  have l: "Level (NewTx \<lparr>p_Acquire = None, p_DataTypeForOID = Map.empty\<rparr>) = 0"
    by (simp add: Level_def NewTx_def)
  show ?thesis
    using l commit_rollback_without_transaction [OF l, of None None] by simp
qed


lemma sint_MaxInt64: "sint MaxInt64 = 2 ^ 63 - 1"
  by (simp add: MaxInt64_def)

lemma sint_below_max:
  assumes "c \<noteq> MaxInt64"
  shows "sint (c :: 64 word) < 2 ^ 63 - 1"
proof (rule ccontr)
  assume "\<not> sint c < 2 ^ 63 - 1"
  then have "sint c = 2 ^ 63 - 1"
    using sint_lt [of c] by simp
  then have "word_of_int (sint c) = (word_of_int (2 ^ 63 - 1) :: 64 word)"
    by simp
  then have "c = MaxInt64"
    by (simp add: MaxInt64_def)
  with assms show False
    by simp
qed

lemma sint_0_iff: "sint (c :: 64 word) = 0 \<longleftrightarrow> c = 0"
  by (rule signed_eq_0_iff)

lemma NewTx_inv: "tx_inv (NewTx pool)"
  by (simp add: tx_inv_def NewTx_def)

lemma BeginTx_inv:
  assumes "tx_inv t" and "sint (tx_counter t) < 2 ^ 63 - 1"
  shows "tx_inv (fst (BeginTx resp level mode t)) \<and>
         sint (tx_counter (fst (BeginTx resp level mode t))) \<le> sint (tx_counter t) + 1"
proof (cases "0 <s tx_counter t")
  case True
  then show ?thesis
    using assms by (simp add: tx_inv_def BeginTx_def word_sless_alt word_sle_eq sint_succ)
next
  case False
  then have z: "tx_counter t = 0"
    using assms(1) by (simp add: tx_inv_def word_sless_alt word_sle_eq flip: sint_0_iff)
  show ?thesis
    using assms(1) z by (cases resp) (simp_all add: tx_inv_def BeginTx_def word_sless_alt word_sle_eq)
qed

lemma Commit_inv:
  assumes "tx_inv t"
  shows "\<exists>t' e ps. Commit r t = Inr (t', e, ps) \<and> tx_inv t' \<and>
           sint (tx_counter t') \<le> sint (tx_counter t)"
proof (cases "tx_counter t = 0")
  case True
  then show ?thesis
    using assms by (simp add: Commit_def)
next
  case False
  then have p: "0 < sint (tx_counter t)"
    using assms by (simp add: tx_inv_def word_sle_eq flip: sint_0_iff)
  then have d: "sint (tx_counter t - 1) = sint (tx_counter t) - 1"
    by (intro sint_pred) simp
  obtain h where h: "tx_tx t = Some h"
    using assms p by (auto simp: tx_inv_def word_sless_alt)
  show ?thesis
  proof (cases "0 <s tx_counter t - 1")
    case True
    then show ?thesis
      using False h d p by (simp add: Commit_def Let_def tx_inv_def word_sless_alt word_sle_eq)
  next
    case False
    then show ?thesis
      using \<open>tx_counter t \<noteq> 0\<close> h d p
      by (simp add: Commit_def Let_def tx_inv_def word_sless_alt word_sle_eq)
  qed
qed

lemma Rollback_inv:
  assumes "tx_inv t"
  shows "\<exists>t' e ps. Rollback r t = Inr (t', e, ps) \<and> tx_inv t' \<and>
           sint (tx_counter t') \<le> sint (tx_counter t)"
proof (cases "tx_counter t = 0")
  case True
  then show ?thesis
    using assms by (simp add: Rollback_def)
next
  case False
  then have p: "0 < sint (tx_counter t)"
    using assms by (simp add: tx_inv_def word_sle_eq flip: sint_0_iff)
  obtain h where h: "tx_tx t = Some h"
    using assms p by (auto simp: tx_inv_def word_sless_alt)
  show ?thesis
    using False h p by (simp add: Rollback_def Let_def tx_inv_def word_sless_alt word_sle_eq)
qed

lemma step_inv:
  assumes "tx_inv t" and "sint (tx_counter t) < 2 ^ 63 - 1"
  shows "\<exists>t' e ps. step c t = Inr (t', e, ps) \<and> tx_inv t' \<and>
           sint (tx_counter t') \<le> sint (tx_counter t) + 1"
proof (cases c)
  case (CallBegin resp)
  have "tx_inv (fst (Begin resp t)) \<and>
        sint (tx_counter (fst (Begin resp t))) \<le> sint (tx_counter t) + 1"
    unfolding Begin_def using assms by (rule BeginTx_inv)
  then show ?thesis
    using CallBegin by (cases "Begin resp t") auto
next
  case (CallCommit r)
  then show ?thesis
    using Commit_inv [OF assms(1), of r] by auto
next
  case (CallRollback r)
  then show ?thesis
    using Rollback_inv [OF assms(1), of r] by auto
qed

lemma run_inv:
  "tx_inv t \<Longrightarrow> sint (tx_counter t) + int (length cs) < 2 ^ 63 \<Longrightarrow>
   \<exists>t' es ps. run cs t = Inr (t', es, ps) \<and> tx_inv t'"
proof (induction cs arbitrary: t)
  case Nil
  then show ?case by simp
next
  case (Cons c cs)
  have "sint (tx_counter t) < 2 ^ 63 - 1"
    using Cons.prems(2) by simp
  from step_inv [OF Cons.prems(1) this, of c]
  obtain t1 e ps where s: "step c t = Inr (t1, e, ps)" and i: "tx_inv t1"
    and b: "sint (tx_counter t1) \<le> sint (tx_counter t) + 1"
    by blast
  have "sint (tx_counter t1) + int (length cs) < 2 ^ 63"
    using b Cons.prems(2) by simp
  from Cons.IH [OF i this]
  obtain t2 es qs where r: "run cs t1 = Inr (t2, es, qs)" and j: "tx_inv t2"
    by blast
  show ?case
    using s r j by simp
qed

text \<open>
  Claim C8 (handle present iff counter positive), amended. A new \<open>Tx\<close> satisfies the
  invariant (counter not negative, handle present exactly when the counter is
  positive). From a \<open>Tx\<close> that satisfies it, \<open>Commit\<close> and \<open>Rollback\<close> return without a
  panic in a state that satisfies it again, whatever the driver answers, and so does
  \<open>BeginTx\<close> unless the counter is at its largest value \<open>MaxInt64\<close>. So after any
  sequence of fewer than \<open>2 ^ 63\<close> calls on a new \<open>Tx\<close>, with any answers of the driver,
  the handle is present exactly when \<open>Level\<close> is positive. A first \<open>BeginTx\<close> (counter
  0) on which the driver fails returns the wrapped driver error and leaves the \<open>Tx\<close>
  unchanged: counter 0, no handle.
\<close>

theorem tx_invariant_preserved:
  assumes "tx_inv t"
  shows "tx_inv (NewTx pool) \<and>
         (tx_counter t \<noteq> MaxInt64 \<longrightarrow> tx_inv (fst (BeginTx resp level mode t))) \<and>
         (\<exists>t' e ps. Commit r t = Inr (t', e, ps) \<and> tx_inv t') \<and>
         (\<exists>t' e ps. Rollback r t = Inr (t', e, ps) \<and> tx_inv t') \<and>
         (length cs < 2 ^ 63 \<longrightarrow>
            (\<exists>t' es ps. run cs (NewTx pool) = Inr (t', es, ps) \<and>
               ((tx_tx t' \<noteq> None) = (0 <s Level t')))) \<and>
         (tx_counter t = 0 \<longrightarrow>
            BeginTx (Inl err) level mode t = (t, Some (NerrWrap err), [PhysBegin level mode]) \<and>
            Level t = 0 \<and> tx_tx t = None)"
proof (intro conjI impI)
  show "tx_inv (NewTx pool)"
    by (rule NewTx_inv)
  show "tx_inv (fst (BeginTx resp level mode t))" if "tx_counter t \<noteq> MaxInt64"
    using BeginTx_inv [OF assms sint_below_max [OF that]] by simp
  show "\<exists>t' e ps. Commit r t = Inr (t', e, ps) \<and> tx_inv t'"
    using Commit_inv [OF assms, of r] by blast
  show "\<exists>t' e ps. Rollback r t = Inr (t', e, ps) \<and> tx_inv t'"
    using Rollback_inv [OF assms, of r] by blast
  show "\<exists>t' es ps. run cs (NewTx pool) = Inr (t', es, ps) \<and>
          ((tx_tx t' \<noteq> None) = (0 <s Level t'))" if "length cs < 2 ^ 63"
  proof -
    have "sint (tx_counter (NewTx pool)) + int (length cs) < 2 ^ 63"
      using that by (simp add: NewTx_def)
    from run_inv [OF NewTx_inv this] show ?thesis
      by (auto simp: tx_inv_def Level_def)
  qed
next
  assume "tx_counter t = 0"
  then show "BeginTx (Inl err) level mode t = (t, Some (NerrWrap err), [PhysBegin level mode])"
    by (simp add: BeginTx_def nerr_New_def)
next
  assume "tx_counter t = 0"
  then show "Level t = 0"
    by (simp add: Level_def)
next
  assume "tx_counter t = 0"
  then show "tx_tx t = None"
    using assms by (simp add: tx_inv_def)
qed

theorem tx_invariant_preserved_witness:
  "tx_inv \<lparr>tx_pool = \<lparr>p_Acquire = None, p_DataTypeForOID = Map.empty\<rparr>, tx_counter = 0, tx_tx = None\<rparr> \<and>
   tx_inv (fst (BeginTx (Inr 7) ''serializable'' ''read only''
     \<lparr>tx_pool = \<lparr>p_Acquire = None, p_DataTypeForOID = Map.empty\<rparr>, tx_counter = 0, tx_tx = None\<rparr>)) \<and>
   BeginTx (Inl (DriverError ''timeout'')) ''serializable'' ''read only''
     \<lparr>tx_pool = \<lparr>p_Acquire = None, p_DataTypeForOID = Map.empty\<rparr>, tx_counter = 0, tx_tx = None\<rparr> =
     (\<lparr>tx_pool = \<lparr>p_Acquire = None, p_DataTypeForOID = Map.empty\<rparr>, tx_counter = 0, tx_tx = None\<rparr>,
      Some (NerrWrap (DriverError ''timeout'')), [PhysBegin ''serializable'' ''read only''])"
proof -
  have i: "tx_inv \<lparr>tx_pool = \<lparr>p_Acquire = None, p_DataTypeForOID = Map.empty\<rparr>, tx_counter = 0, tx_tx = None\<rparr>"
    by (simp add: tx_inv_def)
  show ?thesis
    using i tx_invariant_preserved [OF i,
        where resp = "Inr 7" and level = "''serializable''" and mode = "''read only''"
          and err = "DriverError ''timeout''"]
    by (simp add: MaxInt64_def)
qed

text \<open>
  The claim as stated, for every operation in every state, fails for \<open>BeginTx\<close> at the
  largest counter: after \<open>2 ^ 63 - 1\<close> calls of \<open>Begin\<close> on a new \<open>Tx\<close> the counter is
  \<open>MaxInt64\<close> and the invariant holds; one more \<open>BeginTx\<close> wraps the counter to a
  negative value with the handle still stored.
\<close>

theorem tx_invariant_overflow_counterexample:
  "run (replicate (2 ^ 63 - 1) (CallBegin (Inr 7)))
       (NewTx \<lparr>p_Acquire = None, p_DataTypeForOID = Map.empty\<rparr>) =
     Inr (\<lparr>tx_pool = \<lparr>p_Acquire = None, p_DataTypeForOID = Map.empty\<rparr>,
           tx_counter = MaxInt64, tx_tx = Some 7\<rparr>,
          replicate (2 ^ 63 - 1) None, [PhysBegin ''read committed'' ''read write'']) \<and>
   tx_inv \<lparr>tx_pool = \<lparr>p_Acquire = None, p_DataTypeForOID = Map.empty\<rparr>,
            tx_counter = MaxInt64, tx_tx = Some 7\<rparr> \<and>
   \<not> tx_inv (fst (BeginTx (Inr 8) ''read committed'' ''read write''
            \<lparr>tx_pool = \<lparr>p_Acquire = None, p_DataTypeForOID = Map.empty\<rparr>,
             tx_counter = MaxInt64, tx_tx = Some 7\<rparr>)) \<and>
   tx_tx (fst (BeginTx (Inr 8) ''read committed'' ''read write''
            \<lparr>tx_pool = \<lparr>p_Acquire = None, p_DataTypeForOID = Map.empty\<rparr>,
             tx_counter = MaxInt64, tx_tx = Some 7\<rparr>)) = Some 7 \<and>
   Level (fst (BeginTx (Inr 8) ''read committed'' ''read write''
            \<lparr>tx_pool = \<lparr>p_Acquire = None, p_DataTypeForOID = Map.empty\<rparr>,
             tx_counter = MaxInt64, tx_tx = Some 7\<rparr>)) <s 0"
proof -
  define P :: Pool where "P = \<lparr>p_Acquire = None, p_DataTypeForOID = Map.empty\<rparr>"
  define K :: nat where "K = 2 ^ 63 - 1"
  obtain n where n: "K = Suc n"
    by (cases K) (simp_all add: K_def)
  have k: "Suc n \<le> 2 ^ 63"
    unfolding n [symmetric] by (simp add: K_def)
  have m: "(of_nat (Suc n) :: 64 word) = MaxInt64"
    unfolding n [symmetric] by (simp add: K_def MaxInt64_def)
  have "run (replicate (Suc n) (CallBegin (Inr 7))) (NewTx P) =
           Inr (\<lparr>tx_pool = P, tx_counter = of_nat (Suc n), tx_tx = Some 7\<rparr>,
                replicate (Suc n) None, [PhysBegin ''read committed'' ''read write''])"
    using k by (rule run_begins_fresh)
  then have "run (replicate (Suc n) (CallBegin (Inr 7))) (NewTx P) =
           Inr (\<lparr>tx_pool = P, tx_counter = MaxInt64, tx_tx = Some 7\<rparr>,
                replicate (Suc n) None, [PhysBegin ''read committed'' ''read write''])"
    by (simp only: m)
  then have r: "run (replicate (2 ^ 63 - 1) (CallBegin (Inr 7))) (NewTx P) =
           Inr (\<lparr>tx_pool = P, tx_counter = MaxInt64, tx_tx = Some 7\<rparr>,
                replicate (2 ^ 63 - 1) None, [PhysBegin ''read committed'' ''read write''])"
    unfolding n [symmetric] K_def .
  have rest: "tx_inv \<lparr>tx_pool = P, tx_counter = MaxInt64, tx_tx = Some 7\<rparr> \<and>
   \<not> tx_inv (fst (BeginTx (Inr 8) ''read committed'' ''read write''
            \<lparr>tx_pool = P, tx_counter = MaxInt64, tx_tx = Some 7\<rparr>)) \<and>
   tx_tx (fst (BeginTx (Inr 8) ''read committed'' ''read write''
            \<lparr>tx_pool = P, tx_counter = MaxInt64, tx_tx = Some 7\<rparr>)) = Some 7 \<and>
   Level (fst (BeginTx (Inr 8) ''read committed'' ''read write''
            \<lparr>tx_pool = P, tx_counter = MaxInt64, tx_tx = Some 7\<rparr>)) <s 0"
    by (simp add: tx_inv_def BeginTx_def MaxInt64_def Level_def word_sless_alt word_sle_eq)
  show ?thesis
    using r rest unfolding P_def by blast
qed

section \<open>Properties of Query\<close>

lemma ToLower_samples:
  "ToLower ''name'' = ''name''" "ToLower ''t'' = ''t''" "ToLower ''n'' = ''n''"
  "ToLower ''u'' = ''u''" "ToLower ''NAME'' = ''name''" "ToLower ''Name'' = ''name''"
  "ToLower ''yes'' = ''yes''"
  by code_simp+

lemma sample_selected_eq:
  "sample_selected =
     \<lparr>q_tx = None, q_pool = sample_pool, q_rows = Some sample_rows, q_tag = [],
      q_fields = [(''name'', 0), (''t'', 1), (''n'', 2), (''u'', 3)],
      q_lastValues = [], q_lastDescriptions = []\<rparr>"
  by (simp add: sample_selected_def Select_def NewQuery_def sample_driver_def Fields_def
      sample_rows_def ToLower_samples)

lemma sample_row_eq:
  "sample_row = sample_selected
     \<lparr>q_rows := Some (sample_rows
        \<lparr>r_current := ([VString ''yes'', VInt64 3661000000, VNil, VInt32 (- 5)], None),
         r_pending := []\<rparr>)\<rparr>"
  by (simp add: sample_row_def Next_def sample_selected_eq rows_Next_def sample_rows_def)

lemma sample_closed_eq:
  "sample_closed = sample_selected
     \<lparr>q_rows := None,
      q_lastValues := [VString ''yes'', VInt64 3661000000, VNil, VInt32 (- 5)],
      q_lastDescriptions := r_FieldDescriptions sample_rows\<rparr>"
  by (simp add: sample_closed_def Close_def sample_row_eq sample_selected_eq rows_Values_def
      sample_rows_def)

lemma sample_Exec:
  "Exec sample_driver (NewQuery sample_pool) ''INSERT INTO t(a) VALUES (1)'' =
     Inr ((NewQuery sample_pool)\<lparr>q_tag := ''INSERT 0 1''\<rparr>, None)"
  by (simp add: Exec_def NewQuery_def sample_driver_def nerr_New_def)

lemma sample_Select:
  "Select sample_driver (NewQuery sample_pool) ''SELECT name, t, n, u FROM s'' =
     Inr (sample_selected, None)"
  by (simp add: sample_selected_eq Select_def NewQuery_def sample_driver_def Fields_def
      sample_rows_def ToLower_samples)

lemma sample_Next: "Next sample_selected = (sample_row, True)"
  by (simp add: sample_row_eq Next_def sample_selected_eq rows_Next_def sample_rows_def)

lemma sample_Close: "Close sample_row = (sample_closed, None)"
  by (simp add: sample_closed_eq Close_def sample_row_eq sample_selected_eq rows_Values_def
      rows_Close_def sample_rows_def)

lemma sample_row_facts:
  "Contains sample_row ''t''" "FieldType sample_row ''t'' = TimeOID"
  "Value sample_row ''t'' = VInt64 3661000000"
  "Contains sample_row ''u''" "Value sample_row ''u'' = VInt32 (- 5)"
  "Contains sample_row ''n''" "Value sample_row ''n'' = VNil" "FieldType sample_row ''n'' = 23"
  "Values sample_row = ([VString ''yes'', VInt64 3661000000, VNil, VInt32 (- 5)], None)"
  "length (Fields sample_row) = 4"
  by (simp_all add: sample_row_eq sample_selected_eq Contains_def FieldType_def FieldTypeIndex_def
      Fields_def sample_rows_def sample_pool_def TimeOID_def Value_def Values_def rows_Values_def
      ToLower_samples)

lemma RowsAffected_after_Exec:
  "Exec drv q sql = Inr (q', err) \<Longrightarrow> RowsAffected q' = (q', 0)"
  by (auto simp: Exec_def RowsAffected_def Let_def split: option.splits prod.splits)

text \<open>
  Claim C1 (RowsAffected after Exec). The claim does not hold of the code: \<open>RowsAffected\<close>
  reads the row count from the cursor only and answers 0 whenever there is no cursor,
  so the tag that \<open>Exec\<close> stored is never consulted. On a new pool-bound \<open>Query\<close>,
  \<open>Exec\<close> of an INSERT of one row returns no error and stores the tag \<open>INSERT 0 1\<close>,
  whose row count is 1, the \<open>Query\<close> is a command, and \<open>RowsAffected\<close> returns 0.
\<close>

theorem Exec_then_RowsAffected:
  "(case Exec sample_driver (NewQuery sample_pool) ''INSERT INTO t(a) VALUES (1)'' of
      Inl f \<Rightarrow> False
    | Inr (q, err) \<Rightarrow>
        err = None \<and> q_rows q = None \<and> IsCommand q \<and> q_tag q = ''INSERT 0 1'' \<and>
        tag_RowsAffected (q_tag q) = 1 \<and> snd (RowsAffected q) = 0)"
  unfolding sample_Exec
  by (simp add: IsCommand_def RowsAffected_def NewQuery_def tag_RowsAffected_def is_digit_def)

lemma lookup_case_insensitive:
  "ToLower a = ToLower b \<Longrightarrow> Contains q a = Contains q b \<and> Value q a = Value q b"
  by (simp add: Contains_def Value_def)

text \<open>
  Claim C3 (case-insensitive column lookup). The claim does not hold of the code:
  \<open>Contains\<close> and \<open>Value\<close> lower the requested name before the lookup, \<open>FieldType\<close> and
  \<open>FieldTypeName\<close> look it up as it is written. After a successful \<open>Select\<close> with a
  column named \<open>name\<close> of type \<open>text\<close>, \<open>Contains\<close> holds for \<open>name\<close>, \<open>NAME\<close> and
  \<open>Name\<close>, but \<open>FieldType\<close> is 25 for \<open>name\<close> and 0 for the other two, and
  \<open>FieldTypeName\<close> is \<open>text\<close> for \<open>name\<close> and empty for the other two.
\<close>

theorem FieldType_is_case_sensitive:
  "(case Select sample_driver (NewQuery sample_pool) ''SELECT name, t, n, u FROM s'' of
      Inl f \<Rightarrow> False
    | Inr (q, err) \<Rightarrow>
        err = None \<and> FieldName q 0 = ''name'' \<and>
        Contains q ''name'' \<and> Contains q ''NAME'' \<and> Contains q ''Name'' \<and>
        FieldType q ''name'' = 25 \<and> FieldType q ''NAME'' = 0 \<and> FieldType q ''Name'' = 0 \<and>
        FieldTypeName q ''name'' = ''text'' \<and> FieldTypeName q ''NAME'' = [] \<and>
        FieldTypeName q ''Name'' = [])"
  by code_simp

text \<open>
  Claim C10 (numeric truthiness of Bool). On an existing column whose value is of a
  numeric type (any signed or unsigned integer width, \<open>float32\<close> or \<open>float64\<close>), \<open>Bool\<close>
  returns without a panic, and returns true exactly when the number is greater than
  zero: for an integer type when its integer is positive (read signed or unsigned as
  the type says), for a floating-point type when the value compares greater than 0,
  which a NaN, a zero and a negative number do not.
\<close>

theorem Bool_numeric:
  assumes "Contains q field" and "numeric_value (Value q field) = Some x"
  shows "Bool q field = Inr (float_less (FNum 0) x) \<and>
         (\<forall>n. integer_of (Value q field) = Some n \<longrightarrow> Bool q field = Inr (0 < n)) \<and>
         (\<forall>r. x = FNum r \<longrightarrow> Bool q field = Inr (0 < r))"
proof -
  have a: "Bool q field = Inr (float_less (FNum 0) x)"
    using assms
    by (cases "Value q field")
       (auto simp: Bool_def numeric_value_def integer_of_def word_sless_alt word_less_alt
          simp del: of_int_sint of_int_uint)
  have b: "\<forall>n. integer_of (Value q field) = Some n \<longrightarrow> Bool q field = Inr (0 < n)"
    using assms(1)
    by (cases "Value q field")
       (auto simp: Bool_def integer_of_def word_sless_alt word_less_alt)
  have c: "\<forall>r. x = FNum r \<longrightarrow> Bool q field = Inr (0 < r)"
    using a by simp
  show ?thesis
    using a b c by blast
qed

theorem Bool_numeric_witness:
  "Contains sample_row ''u'' \<and> numeric_value (Value sample_row ''u'') = Some (FNum (- 5)) \<and>
   Bool sample_row ''u'' = Inr False \<and>
   Contains sample_row ''t'' \<and> numeric_value (Value sample_row ''t'') = Some (FNum 3661000000) \<and>
   Bool sample_row ''t'' = Inr True"
proof -
  have u: "Contains sample_row ''u''"
    and t: "Contains sample_row ''t''"
    by (rule sample_row_facts)+
  have nu: "numeric_value (Value sample_row ''u'') = Some (FNum (- 5))"
    by (simp add: sample_row_facts numeric_value_def integer_of_def)
  have nt: "numeric_value (Value sample_row ''t'') = Some (FNum 3661000000)"
    by (simp add: sample_row_facts numeric_value_def integer_of_def)
  show ?thesis
    using u t nu nt Bool_numeric [OF u nu] Bool_numeric [OF t nt] by simp
qed

text \<open>
  Claim C9 (null zero-value law), amended. On an existing column whose value is null,
  \<open>Int\<close>, \<open>Int64\<close>, \<open>UInt64\<close>, \<open>Bool\<close>, \<open>Float32\<close>, \<open>Float64\<close>, \<open>Time\<close>, \<open>Bytes\<close>,
  \<open>String\<close>, \<open>StringArray\<close>, \<open>TimeArray\<close>, \<open>IntArray\<close> and \<open>IntArray64\<close> return the
  zero value of their type without a panic. \<open>Duration\<close> looks at the type of the
  column before it looks at the value: it returns 0 when \<open>FieldType\<close> is 0 or the
  time-of-day type, and panics for any other type, null or not.
\<close>

theorem null_zero_value:
  assumes "Contains q field" and "Value q field = VNil"
  shows "Int' rt q field = Inr 0 \<and> Int64 rt q field = Inr 0 \<and> UInt64 rt q field = Inr 0 \<and>
         Bool q field = Inr False \<and>
         Float64 rt q field = Inr (FNum 0) \<and> Float32 rt q field = Inr (FNum 0) \<and>
         Time rt q field = Inr (Instant 0) \<and>
         Bytes q field = Inr [] \<and> String rt q field = Inr [] \<and>
         StringArray rt q field = Inr [] \<and> TimeArray rt q field = Inr [] \<and>
         IntArray rt q field = Inr [] \<and> IntArray64 rt q field = Inr [] \<and>
         Duration rt q field =
           (if FieldType q field = 0 \<or> FieldType q field = TimeOID then Inr 0
            else Inl (CantConvertDuration field))"
  using assms
  by (simp add: Int'_def Int64_def UInt64_def Bool_def Float64_def Float32_def to_float32_def
      Time_def Bytes_def String_def StringArray_def TimeArray_def IntArray_def IntArray64_def
      Duration_def Let_def)

theorem null_zero_value_witness:
  "Contains sample_row ''n'' \<and> Value sample_row ''n'' = VNil \<and>
   Int64 sample_runtime sample_row ''n'' = Inr 0 \<and> Bool sample_row ''n'' = Inr False \<and>
   Float32 sample_runtime sample_row ''n'' = Inr (FNum 0) \<and>
   Time sample_runtime sample_row ''n'' = Inr (Instant 0) \<and>
   String sample_runtime sample_row ''n'' = Inr [] \<and>
   IntArray sample_runtime sample_row ''n'' = Inr []"
proof -
  have c: "Contains sample_row ''n''"
    and v: "Value sample_row ''n'' = VNil"
    by (rule sample_row_facts)+
  show ?thesis
    using c v null_zero_value [OF c v, of sample_runtime] by simp
qed

theorem Duration_null_counterexample:
  "Contains sample_row ''n'' \<and> Value sample_row ''n'' = VNil \<and>
   FieldType sample_row ''n'' = 23 \<and>
   Duration sample_runtime sample_row ''n'' = Inl (CantConvertDuration ''n'')"
  by (simp add: sample_row_facts Duration_def TimeOID_def)





text \<open>
  Claim C2 (snapshot stability), amended. Let \<open>Close\<close> be called on a \<open>Query\<close> whose
  \<open>Values\<close> succeed with one value per column (as after a successful \<open>Select\<close> and a
  \<open>Next\<close> that returned true, the driver decoding the row). Then \<open>Fields\<close>, \<open>Values\<close>,
  \<open>Contains\<close>, \<open>Value\<close>, \<open>IsNull\<close>, \<open>Json\<close> and the typed accessors \<open>Int\<close>, \<open>Int64\<close>,
  \<open>UInt64\<close>, \<open>Bool\<close>, \<open>Float32\<close>, \<open>Float64\<close>, \<open>Time\<close>, \<open>Bytes\<close>, \<open>String\<close>,
  \<open>StringArray\<close>, \<open>TimeArray\<close>, \<open>IntArray\<close> and \<open>IntArray64\<close> return after \<open>Close\<close>
  what they returned before it. The accessors that ask for a live cursor return their
  not-found value after \<open>Close\<close>: \<open>FieldName\<close> and \<open>FieldTypeNameIndex\<close> the empty
  string, \<open>FieldTypeIndex\<close> 0, \<open>ValueIndex\<close> nil, and with them \<open>FieldType\<close> 0 and
  \<open>FieldTypeName\<close> the empty string. (\<open>Duration\<close>, which goes by \<open>FieldType\<close>, is not
  part of the statement.)
\<close>

theorem snapshot_after_Close:
  assumes "Close q = (q', e)" and "Values q = (vs, None)" and "length vs = length (Fields q)"
  shows "Fields q' = Fields q \<and> Values q' = Values q \<and>
         Contains q' field = Contains q field \<and> Value q' field = Value q field \<and>
         IsNull q' field = IsNull q field \<and> Json q' field = Json q field \<and>
         Int' rt q' field = Int' rt q field \<and> Int64 rt q' field = Int64 rt q field \<and>
         UInt64 rt q' field = UInt64 rt q field \<and> Bool q' field = Bool q field \<and>
         Float32 rt q' field = Float32 rt q field \<and> Float64 rt q' field = Float64 rt q field \<and>
         Time rt q' field = Time rt q field \<and> Bytes q' field = Bytes q field \<and>
         String rt q' field = String rt q field \<and>
         StringArray rt q' field = StringArray rt q field \<and>
         TimeArray rt q' field = TimeArray rt q field \<and>
         IntArray rt q' field = IntArray rt q field \<and>
         IntArray64 rt q' field = IntArray64 rt q field \<and>
         FieldName q' index = [] \<and> FieldTypeIndex q' index = 0 \<and>
         FieldTypeNameIndex q' index = [] \<and> ValueIndex q' index = VNil \<and>
         FieldType q' name = 0 \<and> FieldTypeName q' name = []"
proof -
  have rows: "q_rows q' = None"
    using assms(1) by (auto simp: Close_def split: option.splits)
  have flds: "q_fields q' = q_fields q"
    using assms(1) by (auto simp: Close_def split: option.splits)
  have F: "Fields q' = Fields q"
    using assms(1) by (auto simp: Close_def Fields_def split: option.splits)
  have V: "Values q' = Values q"
    using assms by (auto simp: Close_def Values_def Fields_def split: option.splits)
  have C: "Contains q' field = Contains q field"
    by (simp add: Contains_def flds)
  have W: "Value q' field = Value q field"
    unfolding Value_def flds V by (rule refl)
  have gated: "FieldName q' index = [] \<and> FieldTypeIndex q' index = 0 \<and>
         FieldTypeNameIndex q' index = [] \<and> ValueIndex q' index = VNil \<and>
         FieldType q' name = 0 \<and> FieldTypeName q' name = []"
    using rows
    by (simp add: FieldName_def FieldTypeIndex_def FieldTypeNameIndex_def ValueIndex_def
        FieldType_def FieldTypeName_def split: option.splits)
  have S: "String rt q' field = String rt q field"
    unfolding String_def C W by (rule refl)
  have I: "Int' rt q' field = Int' rt q field"
    unfolding Int'_def C W by (rule refl)
  have T: "Time rt q' field = Time rt q field"
    unfolding Time_def C W by (rule refl)
  have D: "Float64 rt q' field = Float64 rt q field"
    unfolding Float64_def C W by (rule refl)
  have A: "intArrayHelper rt q' field = intArrayHelper rt q field"
    unfolding intArrayHelper_def C W I by (rule refl)
  have SA: "StringArray rt q' field = StringArray rt q field"
    unfolding StringArray_def C W S by (rule refl)
  have TA: "TimeArray rt q' field = TimeArray rt q field"
    unfolding TimeArray_def C W T by (rule refl)
  have IA: "IntArray rt q' field = IntArray rt q field"
    unfolding IntArray_def C W A by (rule refl)
  have IB: "IntArray64 rt q' field = IntArray64 rt q field"
    unfolding IntArray64_def C W A by (rule refl)
  have rest: "IsNull q' field = IsNull q field \<and> Json q' field = Json q field \<and>
         Int64 rt q' field = Int64 rt q field \<and> UInt64 rt q' field = UInt64 rt q field \<and>
         Bool q' field = Bool q field \<and> Float32 rt q' field = Float32 rt q field \<and>
         Bytes q' field = Bytes q field"
    unfolding IsNull_def Json_def Int64_def UInt64_def Bool_def Float32_def Bytes_def C W D
    by simp
  show ?thesis
    using F V C W gated S I T D SA TA IA IB rest by simp
qed

theorem snapshot_after_Close_witness:
  "Select sample_driver (NewQuery sample_pool) ''SELECT name, t, n, u FROM s'' =
     Inr (sample_selected, None) \<and>
   Next sample_selected = (sample_row, True) \<and>
   Close sample_row = (sample_closed, None) \<and>
   Values sample_row = ([VString ''yes'', VInt64 3661000000, VNil, VInt32 (- 5)], None) \<and>
   length [VString ''yes'', VInt64 3661000000, VNil, VInt32 (- 5)] = length (Fields sample_row) \<and>
   Values sample_closed = ([VString ''yes'', VInt64 3661000000, VNil, VInt32 (- 5)], None) \<and>
   Value sample_closed ''t'' = VInt64 3661000000 \<and>
   Int64 sample_runtime sample_closed ''t'' = Int64 sample_runtime sample_row ''t'' \<and>
   FieldName sample_closed 0 = [] \<and> ValueIndex sample_closed 0 = VNil"
proof -
  have c: "Close sample_row = (sample_closed, None)"
    by (rule sample_Close)
  have v: "Values sample_row = ([VString ''yes'', VInt64 3661000000, VNil, VInt32 (- 5)], None)"
    by (rule sample_row_facts)
  have l: "length [VString ''yes'', VInt64 3661000000, VNil, VInt32 (- 5)] = length (Fields sample_row)"
    by (simp add: sample_row_facts)
  show ?thesis
    using sample_Select sample_Next c v l sample_row_facts(3)
      snapshot_after_Close [OF c v l, of "''t''" sample_runtime 0]
    by simp
qed

text \<open>
  The claim as stated fails in the sample session, after \<open>Select\<close>, one \<open>Next\<close> that
  returned true, and \<open>Close\<close>: \<open>FieldName\<close>, \<open>FieldTypeIndex\<close>, \<open>FieldTypeNameIndex\<close>,
  \<open>FieldType\<close>, \<open>FieldTypeName\<close>, \<open>ValueIndex\<close> and \<open>Duration\<close> answer differently
  before and after \<open>Close\<close>.
\<close>

lemma sample_before_after:
  "FieldName sample_row 0 = ''name''" "FieldName sample_closed 0 = []"
  "FieldTypeIndex sample_row 0 = 25" "FieldTypeIndex sample_closed 0 = 0"
  "FieldTypeNameIndex sample_row 0 = ''text''" "FieldTypeNameIndex sample_closed 0 = []"
  "FieldType sample_row ''name'' = 25" "FieldType sample_closed ''name'' = 0"
  "FieldTypeName sample_row ''name'' = ''text''" "FieldTypeName sample_closed ''name'' = []"
  "ValueIndex sample_row 0 = VString ''yes''" "ValueIndex sample_closed 0 = VNil"
  "Duration sample_runtime sample_row ''t'' = Inr 3661000000000"
  "Duration sample_runtime sample_closed ''t'' = Inr 0"
  by code_simp+

theorem snapshot_gated_accessors_counterexample:
  "Select sample_driver (NewQuery sample_pool) ''SELECT name, t, n, u FROM s'' =
     Inr (sample_selected, None) \<and>
   Next sample_selected = (sample_row, True) \<and>
   Close sample_row = (sample_closed, None) \<and>
   FieldName sample_row 0 = ''name'' \<and> FieldName sample_closed 0 = [] \<and>
   FieldTypeIndex sample_row 0 = 25 \<and> FieldTypeIndex sample_closed 0 = 0 \<and>
   FieldTypeNameIndex sample_row 0 = ''text'' \<and> FieldTypeNameIndex sample_closed 0 = [] \<and>
   FieldType sample_row ''name'' = 25 \<and> FieldType sample_closed ''name'' = 0 \<and>
   FieldTypeName sample_row ''name'' = ''text'' \<and> FieldTypeName sample_closed ''name'' = [] \<and>
   ValueIndex sample_row 0 = VString ''yes'' \<and> ValueIndex sample_closed 0 = VNil \<and>
   Duration sample_runtime sample_row ''t'' = Inr 3661000000000 \<and>
   Duration sample_runtime sample_closed ''t'' = Inr 0"
  by (simp only: sample_Select sample_Next sample_Close sample_before_after simp_thms)

end
